theory Spec2Isabelle
  imports Main "HOL-Library.AList" "HOL-Library.Sublist" "HOL-Library.Multiset"
begin

section \<open>The process lifecycle of actionhero: \<^verbatim>\<open>src/core/src/classes/process.ts\<close>\<close>

text \<open>
  The class \<^verbatim>\<open>Process\<close> discovers initializers, orders their load, start and stop
  functions by priority, and drives them through \<^verbatim>\<open>initialize\<close>, \<^verbatim>\<open>start\<close>,
  \<^verbatim>\<open>stop\<close> and \<^verbatim>\<open>restart\<close>, escalating every failure through \<^verbatim>\<open>fatalError\<close>.
  The embedding passes the object's fields as a record, gives every asynchronous method an
  explicit outcome (it resolves, it rejects, or the process has exited), and takes what the
  file imports from elsewhere (the file system, \<^verbatim>\<open>glob\<close>, \<^verbatim>\<open>require\<close>, the configuration,
  the clock) as one record of parameters.
\<close>

subsection \<open>Values of the JavaScript run time\<close>

text \<open>An error object: its \<^verbatim>\<open>name\<close>, \<^verbatim>\<open>message\<close> and \<^verbatim>\<open>stack\<close>.\<close>

datatype js_error = JsError (err_name: string) (err_message: string) (err_stack: string)

text \<open>\<^verbatim>\<open>Error.prototype.toString\<close>.\<close>

definition error_toString :: "js_error \<Rightarrow> string" where
  "error_toString e =
     (if err_name e = [] then err_message e
      else if err_message e = [] then err_name e
      else err_name e @ '': '' @ err_message e)"

text \<open>
  \<^verbatim>\<open>JSON.stringify\<close> of a string: the text between double quotes, with the quote, the
  backslash and the control characters escaped.
\<close>

definition hex_digit :: "nat \<Rightarrow> char" where
  "hex_digit n = (if n < 10 then char_of (48 + n) else char_of (87 + n))"

definition json_escape :: "char \<Rightarrow> string" where
  "json_escape c =
     (if c = CHR 0x22 then [CHR 0x5C, CHR 0x22]
      else if c = CHR 0x5C then [CHR 0x5C, CHR 0x5C]
      else if c = CHR 0x08 then [CHR 0x5C, CHR ''b'']
      else if c = CHR 0x09 then [CHR 0x5C, CHR ''t'']
      else if c = CHR 0x0A then [CHR 0x5C, CHR ''n'']
      else if c = CHR 0x0C then [CHR 0x5C, CHR ''f'']
      else if c = CHR 0x0D then [CHR 0x5C, CHR ''r'']
      else if (of_char c :: nat) < 32
        then [CHR 0x5C, CHR ''u'', CHR ''0'', CHR ''0'',
              hex_digit (of_char c div 16), hex_digit (of_char c mod 16)]
      else [c])"

definition JSON_stringify :: "string \<Rightarrow> string" where
  "JSON_stringify s = CHR 0x22 # concat (map json_escape s) @ [CHR 0x22]"

text \<open>
  The flags of the process are declared \<^verbatim>\<open>boolean\<close> but start undefined, and
  \<^verbatim>\<open>delete this.shuttingDown\<close> makes one undefined again: \<open>None\<close> is undefined.
  \<^verbatim>\<open>if (this.running)\<close> and \<^verbatim>\<open>=== true\<close> both hold exactly at \<open>Some True\<close>.
\<close>

definition truthy :: "bool option \<Rightarrow> bool" where
  "truthy b \<longleftrightarrow> b = Some True"

text \<open>
  The order in which \<^verbatim>\<open>for ... in\<close> visits the own properties of an object: the keys
  that are array indices (the canonical decimal strings of \<open>0 .. 2^32 - 2\<close>) in ascending
  numeric order, then every other key in the order of its creation. An object is an
  association list in creation order; \<^verbatim>\<open>obj[k] = v\<close> is \<^const>\<open>AList.update\<close>, which keeps
  the place of a key that exists and appends a new one.
\<close>

definition is_array_index :: "int \<Rightarrow> bool" where
  "is_array_index k \<longleftrightarrow> 0 \<le> k \<and> k < 4294967295"

definition for_in_keys :: "(int \<times> 'a) list \<Rightarrow> int list" where
  "for_in_keys obj =
     (let ks = map fst obj
      in sort (filter is_array_index ks) @ filter (\<lambda>k. \<not> is_array_index k) ks)"

definition is_digit :: "char \<Rightarrow> bool" where
  "is_digit c \<longleftrightarrow> 48 \<le> (of_char c :: nat) \<and> (of_char c :: nat) \<le> 57"

definition decimal :: "string \<Rightarrow> nat" where
  "decimal s = fold (\<lambda>c n. 10 * n + ((of_char c :: nat) - 48)) s 0"

definition canonical_index :: "string \<Rightarrow> nat option" where
  "canonical_index s =
     (if s = [] \<or> \<not> list_all is_digit s \<or> (1 < length s \<and> take 1 s = ''0'') then None
      else if decimal s < 4294967295 then Some (decimal s) else None)"

definition index_order :: "string \<Rightarrow> nat" where
  "index_order k = (case canonical_index k of Some n \<Rightarrow> n | None \<Rightarrow> 0)"

definition for_in_entries :: "(string \<times> 'a) list \<Rightarrow> (string \<times> 'a) list" where
  "for_in_entries obj =
     sort_key (index_order \<circ> fst) (filter (\<lambda>p. canonical_index (fst p) \<noteq> None) obj)
     @ filter (\<lambda>p. canonical_index (fst p) = None) obj"

text \<open>
  A property read \<^verbatim>\<open>obj[name]\<close> on an object literal also finds what every object
  inherits from \<^verbatim>\<open>Object.prototype\<close>; all of these are truthy.
\<close>

definition object_prototype_keys :: "string list" where
  "object_prototype_keys =
     [''constructor'', ''hasOwnProperty'', ''isPrototypeOf'', ''propertyIsEnumerable'',
      ''toLocaleString'', ''toString'', ''valueOf'', ''__proto__'',
      ''__defineGetter__'', ''__defineSetter__'', ''__lookupGetter__'', ''__lookupSetter__'']"

text \<open>
  \<^verbatim>\<open>Array.prototype.sort(compare)\<close>: a stable sort by the comparator (an element goes
  before the first one it does not compare greater than).
\<close>

fun insert_by :: "('a \<Rightarrow> 'a \<Rightarrow> int) \<Rightarrow> 'a \<Rightarrow> 'a list \<Rightarrow> 'a list" where
  "insert_by compare x [] = [x]"
| "insert_by compare x (y # ys) =
     (if compare x y \<le> 0 then x # y # ys else y # insert_by compare x ys)"

definition array_sort :: "('a \<Rightarrow> 'a \<Rightarrow> int) \<Rightarrow> 'a list \<Rightarrow> 'a list" where
  "array_sort compare xs = foldr (insert_by compare) xs []"

subsection \<open>Initializers, modules and steps\<close>

datatype severity = Debug | Info | Notice | Warning | Error | Emerg

text \<open>One call of \<^verbatim>\<open>log(message, severity, detail?)\<close>.\<close>

datatype log_entry = Log (log_message: string) (log_severity: severity) (log_detail: "string option")

text \<open>
  A method of an initializer is foreign code. The model fixes, for each instance, whether
  the method is missing (\<^verbatim>\<open>typeof ... !== "function"\<close>), resolves, or rejects with an
  error object.
\<close>

datatype js_method = Absent | Resolves | Rejects js_error

text \<open>
  An instance of an initializer class: its name, its three priorities (integers, in the
  range where a number printed as a property key reads back as itself), the outcome of
  \<^verbatim>\<open>validate()\<close> (\<open>None\<close>: it returns, \<open>Some e\<close>: it throws \<open>e\<close>) and its three
  optional methods.
\<close>

record initializer =
  name :: string
  loadPriority :: int
  startPriority :: int
  stopPriority :: int
  validate :: "js_error option"
  initialize_method :: js_method
  start_method :: js_method
  stop_method :: js_method

text \<open>\<^verbatim>\<open>new InitializerClass()\<close> returns an instance or throws.\<close>

datatype initializer_class = Constructs initializer | Throws js_error

text \<open>
  What \<^verbatim>\<open>require(file)\<close> returns: a function (the old single export) or an object of
  exports, listed in the order \<^verbatim>\<open>for ... in\<close> visits them.
\<close>

datatype js_module = FunctionExport initializer_class | ObjectExport "(string \<times> initializer_class) list"

text \<open>
  The functions the phase lists hold: the three closures \<^verbatim>\<open>initializeFunction\<close>,
  \<^verbatim>\<open>startFunction\<close> and \<^verbatim>\<open>stopFunction\<close> built per instance (they capture the instance
  and the file), and the two closures that \<^verbatim>\<open>start()\<close> and \<^verbatim>\<open>stop()\<close> push.
\<close>

datatype step =
    InitializeFunction initializer string
  | StartFunction initializer string
  | StopFunction initializer string
  | StartedFunction
  | StoppedFunction

record plugin =
  path :: string

text \<open>
  The fields of \<^verbatim>\<open>Process\<close>, then what the methods change outside the object:
  \<^verbatim>\<open>api.running\<close>, the pid file, and the calls of \<^verbatim>\<open>log\<close> in order. \<open>executed\<close> is a
  history variable, not a field of the source: the steps a waterfall has invoked, in order.
\<close>

record process =
  running :: "bool option"
  initialized :: "bool option"
  shuttingDown :: "bool option"
  bootTime :: "int option"
  initializers :: "(string \<times> initializer) list"
  startCount :: int
  loadInitializers :: "step list"
  startInitializers :: "step list"
  stopInitializers :: "step list"
  plugins :: "(string \<times> plugin) list"
  api_running :: "bool option"
  pidFile :: bool
  logged :: "log_entry list"
  executed :: "step list"

text \<open>
  What the file takes from its imports and from the run time. \<open>arrayUnique\<close> and
  \<open>ensureNoTsHeaderFiles\<close> are \<^verbatim>\<open>utils\<close> functions of the repository that are not in
  this file; they are parameters here, and nothing below depends on what they compute.
  \<open>capture_stack\<close> is the stack text the engine gives \<^verbatim>\<open>new Error(message)\<close>, and
  \<open>undefined_read\<close> the \<^verbatim>\<open>TypeError\<close> it throws on reading a property of
  \<^verbatim>\<open>undefined\<close>.
\<close>

record world =
  dirname :: string
  path_join :: "string list \<Rightarrow> string"
  path_normalize :: "string \<Rightarrow> string"
  glob_sync :: "string \<Rightarrow> string list"
  fs_existsSync :: "string \<Rightarrow> bool"
  initializer_paths :: "string list"
  arrayUnique :: "string list \<Rightarrow> string list"
  ensureNoTsHeaderFiles :: "string list \<Rightarrow> string list"
  require :: "string \<Rightarrow> js_error + js_module"
  capture_stack :: "string \<Rightarrow> string"
  undefined_read :: js_error
  now :: int
  env :: string
  server_id :: string

definition new_Error :: "world \<Rightarrow> string \<Rightarrow> js_error" where
  "new_Error w msg = JsError ''Error'' msg (capture_stack w msg)"

text \<open>
  The outcome of an asynchronous method of \<^verbatim>\<open>Process\<close>, with the state it leaves:
  its promise resolves, its promise rejects, or \<^verbatim>\<open>process.exit\<close> was called.
  \<open>Racing\<close>: a \<^verbatim>\<open>fatalError\<close> that was called without \<^verbatim>\<open>await\<close> is in flight when the
  method reaches its first suspension or rejects; from there its continuation (which ends
  in \<^verbatim>\<open>process.exit(1)\<close>) runs interleaved with the caller, and the sequential model
  stops at the state where the race begins.
\<close>

datatype outcome =
    Returned process
  | Rejected js_error process
  | Exited int process
  | Racing process

text \<open>The argument \<^verbatim>\<open>errors\<close> of \<^verbatim>\<open>fatalError\<close>: a falsy value, one error, or an array.\<close>

datatype errors_arg = NoError | OneError js_error | ErrorList "js_error list"

subsection \<open>The constructor and \<^verbatim>\<open>addPlugin\<close>\<close>

definition constructor :: process where
  "constructor =
     \<lparr>running = None, initialized = None, shuttingDown = None, bootTime = None,
      initializers = [], startCount = 0,
      loadInitializers = [], startInitializers = [], stopInitializers = [],
      plugins = [], api_running = None, pidFile = False, logged = [], executed = []\<rparr>"


definition log :: "string \<Rightarrow> severity \<Rightarrow> string option \<Rightarrow> process \<Rightarrow> process" where
  "log msg sev detail s = s\<lparr>logged := logged s @ [Log msg sev detail]\<rparr>"

subsection \<open>The phase scheduler\<close>

text \<open>
  A ranking object (\<^verbatim>\<open>loadInitializerRankings\<close> and its two siblings) maps a priority to
  the array of functions of that priority. \<open>bucket\<close> reads \<^verbatim>\<open>collection[key]\<close>; every
  key it is read at below was put there before, so the empty default is never taken.
\<close>

type_synonym 'a rankings = "(int \<times> 'a list) list"

definition bucket :: "'a rankings \<Rightarrow> int \<Rightarrow> 'a list" where
  "bucket collection key = (case map_of collection key of Some fs \<Rightarrow> fs | None \<Rightarrow> [])"

text \<open>
  Lines 205-227, for one phase: the bucket of the priority is created when it is missing,
  whatever the priority; the function is pushed only when the priority is positive.
\<close>

definition enqueue :: "'a rankings \<Rightarrow> int \<Rightarrow> 'a \<Rightarrow> 'a rankings" where
  "enqueue rankings priority f =
     (let r = (if map_of rankings priority = None then AList.update priority [] rankings
               else rankings)
      in if priority > 0 then AList.update priority (bucket r priority @ [f]) r else r)"

definition sortNumber :: "int \<Rightarrow> int \<Rightarrow> int" where
  "sortNumber a b = a - b"

text \<open>
  \<^verbatim>\<open>flattenOrderedInitializer\<close>: the keys in \<^verbatim>\<open>for ... in\<close> order (\<^verbatim>\<open>parseInt\<close> reads
  the key of an integer priority back as that integer), sorted by \<^verbatim>\<open>sortNumber\<close>; then
  the buckets in that order, each in its own order.
\<close>

definition flattenOrderedInitializer :: "'a rankings \<Rightarrow> 'a list" where
  "flattenOrderedInitializer collection =
     (let keys = array_sort sortNumber (for_in_keys collection)
      in concat (map (\<lambda>key. bucket collection key) keys))"

subsection \<open>Running the steps\<close>

text \<open>
  The three wrappers of lines 148-203. Each does nothing when its method is missing;
  otherwise it logs, awaits the method, and logs the end, or logs the exception at
  \<^verbatim>\<open>emerg\<close> and throws it again. \<open>Inl (e, s)\<close>: the step rejects with \<open>e\<close> in state \<open>s\<close>.
\<close>

definition initializeFunction :: "initializer \<Rightarrow> string \<Rightarrow> process \<Rightarrow> (js_error \<times> process) + process" where
  "initializeFunction i file s =
     (case initialize_method i of
        Absent \<Rightarrow> Inr s
      | Resolves \<Rightarrow>
          Inr (log (''Loaded initializer: '' @ name i) Debug (Some file)
                (log (''Loading initializer: '' @ name i) Debug (Some file) s))
      | Rejects e \<Rightarrow>
          Inl (e, log (''Exception occurred in initializer `'' @ name i @ ''` during load'')
                    Emerg (Some (error_toString e))
                    (log (''Loading initializer: '' @ name i) Debug (Some file) s)))"

definition startFunction :: "initializer \<Rightarrow> string \<Rightarrow> process \<Rightarrow> (js_error \<times> process) + process" where
  "startFunction i file s =
     (case start_method i of
        Absent \<Rightarrow> Inr s
      | Resolves \<Rightarrow>
          Inr (log (''Started initializer: '' @ name i) Debug (Some file)
                (log (''Starting initializer: '' @ name i) Debug (Some file) s))
      | Rejects e \<Rightarrow>
          Inl (e, log (''Exception occurred in initializer `'' @ name i @ ''` during start'')
                    Emerg (Some (error_toString e))
                    (log (''Starting initializer: '' @ name i) Debug (Some file) s)))"

definition stopFunction :: "initializer \<Rightarrow> string \<Rightarrow> process \<Rightarrow> (js_error \<times> process) + process" where
  "stopFunction i file s =
     (case stop_method i of
        Absent \<Rightarrow> Inr s
      | Resolves \<Rightarrow>
          Inr (log (''Stopped initializer: '' @ name i) Debug (Some file)
                (log (''Stopping initializer: '' @ name i) Debug (Some file) s))
      | Rejects e \<Rightarrow>
          Inl (e, log (''Exception occurred in initializer `'' @ name i @ ''` during stop'')
                    Emerg (Some (error_toString e))
                    (log (''Stopping initializer: '' @ name i) Debug (Some file) s)))"

text \<open>The closure \<^verbatim>\<open>start()\<close> pushes (lines 263-272).\<close>

definition startedFunction :: "world \<Rightarrow> process \<Rightarrow> process" where
  "startedFunction w s =
     (let s1 = s\<lparr>bootTime := Some (now w)\<rparr>
      in if startCount s1 = 0
         then (log ''*** ActionHero Started ***'' Notice None
                (log (''server ID: '' @ server_id w) Notice None s1))
              \<lparr>startCount := startCount s1 + 1\<rparr>
         else log ''*** ActionHero Restarted ***'' Notice None s1)"

text \<open>The closure \<^verbatim>\<open>stop()\<close> pushes (lines 292-300); the pause changes nothing.\<close>

definition stoppedFunction :: "process \<Rightarrow> process" where
  "stoppedFunction s =
     (log ''*** ActionHero Stopped ***'' Notice None (s\<lparr>pidFile := False\<rparr>))
       \<lparr>shuttingDown := None, initializers := [], api_running := Some False\<rparr>"

definition run_step :: "world \<Rightarrow> step \<Rightarrow> process \<Rightarrow> (js_error \<times> process) + process" where
  "run_step w j s =
     (case j of
        InitializeFunction i file \<Rightarrow> initializeFunction i file s
      | StartFunction i file \<Rightarrow> startFunction i file s
      | StopFunction i file \<Rightarrow> stopFunction i file s
      | StartedFunction \<Rightarrow> Inr (startedFunction w s)
      | StoppedFunction \<Rightarrow> Inr (stoppedFunction s))"

text \<open>
  Modelled from the spec: \<^verbatim>\<open>utils.asyncWaterfall\<close> is not in this file. The spec (section
  5): the steps of a phase list run strictly one at a time, the next one starts only after
  the previous one has completed with success, and a step that rejects aborts the steps
  that remain. Each step invoked is recorded in \<open>executed\<close>.
\<close>

fun asyncWaterfall :: "world \<Rightarrow> step list \<Rightarrow> process \<Rightarrow> (js_error \<times> process) + process" where
  "asyncWaterfall w [] s = Inr s"
| "asyncWaterfall w (j # jobs) s =
     (case run_step w j (s\<lparr>executed := executed s @ [j]\<rparr>) of
        Inl failure \<Rightarrow> Inl failure
      | Inr s' \<Rightarrow> asyncWaterfall w jobs s')"

subsection \<open>\<^verbatim>\<open>stop\<close> and \<^verbatim>\<open>fatalError\<close>\<close>

text \<open>
  \<^verbatim>\<open>fatalError\<close> first makes an array of a truthy value that is none (lines 327-329)
  and then tests \<^verbatim>\<open>if (errors)\<close>: an array is truthy, the empty one too.
\<close>

definition normalize_errors :: "errors_arg \<Rightarrow> js_error list option" where
  "normalize_errors errors =
     (case errors of NoError \<Rightarrow> None | OneError e \<Rightarrow> Some [e] | ErrorList es \<Rightarrow> Some es)"

text \<open>Lines 331-335: the message with the tag, then the stack of every error.\<close>

definition log_fatal :: "js_error list \<Rightarrow> string \<Rightarrow> process \<Rightarrow> process" where
  "log_fatal es type s =
     fold (\<lambda>e. log (err_stack e) Emerg None) es
       (log (''Error with initializer step: '' @ JSON_stringify type) Emerg None s)"

text \<open>Lines 285-290: what \<^verbatim>\<open>stop()\<close> does on a running process before its first pause.\<close>

definition begin_stop :: "process \<Rightarrow> process" where
  "begin_stop s =
     log ''stopping process...'' Notice None
       (s\<lparr>shuttingDown := Some True, running := Some False, initialized := Some False\<rparr>)"

text \<open>
  \<^verbatim>\<open>stop\<close> (lines 283-313) and \<^verbatim>\<open>fatalError\<close> (lines 326-342) call each other.
  After \<^verbatim>\<open>await this.stop()\<close> and the pause, \<^verbatim>\<open>fatalError\<close> calls
  \<^verbatim>\<open>process.exit(1)\<close>; when the \<^verbatim>\<open>stop()\<close> it awaits has itself ended the process, that
  is the outcome.
\<close>

function stop :: "world \<Rightarrow> process \<Rightarrow> outcome"
  and fatalError :: "world \<Rightarrow> process \<Rightarrow> errors_arg \<Rightarrow> string \<Rightarrow> outcome" where
  "stop w s =
     (if truthy (running s) then
        (let s1 = begin_stop s;
             s2 = s1\<lparr>stopInitializers := stopInitializers s1 @ [StoppedFunction]\<rparr>
         in case asyncWaterfall w (stopInitializers s2) s2 of
              Inr s3 \<Rightarrow> Returned s3
            | Inl (error, s3) \<Rightarrow> fatalError w s3 (OneError error) ''stop'')
      else if shuttingDown s = Some True then Returned s
      else Returned (log ''Cannot shut down actionhero, not running'' Error None s))"
| "fatalError w s errors type =
     (case normalize_errors errors of
        None \<Rightarrow> Returned s
      | Some es \<Rightarrow>
          (case stop w (log_fatal es type s) of
             Returned s' \<Rightarrow> Exited 1 s'
           | out \<Rightarrow> out))"
  by pat_completeness auto

text \<open>
  Termination: no step touches \<open>running\<close>, which \<^verbatim>\<open>stop()\<close> clears before it runs the
  steps, so the \<^verbatim>\<open>stop()\<close> that \<^verbatim>\<open>fatalError\<close> calls after a failed stop step takes a
  branch without a call.
\<close>

lemma run_step_running:
  "run_step w j s = Inl (e, s') \<Longrightarrow> running s' = running s"
  "run_step w j s = Inr s'' \<Longrightarrow> running s'' = running s"
  by (cases j;
      auto simp: run_step_def initializeFunction_def startFunction_def stopFunction_def
        startedFunction_def stoppedFunction_def Let_def log_def
        split: js_method.splits if_splits)+

lemma asyncWaterfall_running:
  "asyncWaterfall w jobs s = Inl (e, s') \<Longrightarrow> running s' = running s"
proof (induction jobs arbitrary: s)
  case Nil
  then show ?case by simp
next
  case (Cons j jobs)
  show ?case
  proof (cases "run_step w j (s\<lparr>executed := executed s @ [j]\<rparr>)")
    case (Inl failure)
    with Cons.prems show ?thesis
      by (cases failure) (auto dest: run_step_running(1))
  next
    case (Inr s1)
    with Cons.prems Cons.IH[of s1] show ?thesis
      by (auto dest: run_step_running(2))
  qed
qed

lemma fold_log_running:
  "running (fold (\<lambda>e. log (err_stack e) Emerg None) es s) = running s"
  by (induction es arbitrary: s) (auto simp: log_def)

lemma log_fatal_running: "running (log_fatal es type s) = running s"
  by (simp add: log_fatal_def fold_log_running) (simp add: log_def)

definition calls_left :: "(world \<times> process) + (world \<times> process \<times> errors_arg \<times> string) \<Rightarrow> nat" where
  "calls_left x =
     (case x of
        Inl (w, s) \<Rightarrow> (if truthy (running s) then 2 else 0)
      | Inr (w, s, errors, type) \<Rightarrow> (if truthy (running s) then 3 else 1))"

termination stop
proof (relation "measure calls_left")
  show "wf (measure calls_left)"
    by simp
next
  fix w :: world and s s1 s2 s3 :: process and failure error
  assume run: "truthy (running s)" and s1: "s1 = begin_stop s"
    and s2: "s2 = s1\<lparr>stopInitializers := stopInitializers s1 @ [StoppedFunction]\<rparr>"
    and fail: "asyncWaterfall w (stopInitializers s2) s2 = Inl failure" "(error, s3) = failure"
  from fail have "running s3 = running s2"
    using asyncWaterfall_running[of w "stopInitializers s2" s2 error s3] by simp
  with s1 s2 have "running s3 = Some False"
    by (simp add: begin_stop_def log_def)
  with run show "(Inr (w, s3, OneError error, ''stop''), Inl (w, s)) \<in> measure calls_left"
    by (simp add: calls_left_def truthy_def)
next
  fix w :: world and s :: process and errors type es
  assume "normalize_errors errors = Some es"
  show "(Inl (w, log_fatal es type s), Inr (w, s, errors, type)) \<in> measure calls_left"
    by (simp add: calls_left_def log_fatal_running)
qed

subsection \<open>\<^verbatim>\<open>initialize\<close>: discovery\<close>

text \<open>
  Lines 91-107, over the plugins in \<^verbatim>\<open>for ... in\<close> order: a plugin whose normalized path
  does not exist throws out of \<^verbatim>\<open>initialize\<close>; otherwise its two globs are appended.
\<close>

fun scan_plugins :: "world \<Rightarrow> (string \<times> plugin) list \<Rightarrow> string list \<Rightarrow> js_error + string list" where
  "scan_plugins w [] initializerFiles = Inr initializerFiles"
| "scan_plugins w ((pluginName, p) # rest) initializerFiles =
     (let pluginPath = path_normalize w (path p)
      in if \<not> fs_existsSync w pluginPath
         then Inl (new_Error w (''plugin path does not exist: '' @ pluginPath))
         else scan_plugins w rest
                (initializerFiles
                 @ glob_sync w (path_join w [pluginPath, ''initializers'', ''**'', ''*.js''])
                 @ glob_sync w (path_join w [pluginPath, ''dist'', ''initializers'', ''**'', ''*.js''])))"

definition source_pattern :: string where
  "source_pattern = ''**/*('' @ ''*.js|*.ts)''"

text \<open>Lines 74-110: the files of the core, of the project and of the plugins.\<close>

definition discover :: "world \<Rightarrow> process \<Rightarrow> js_error + string list" where
  "discover w s =
     (let core = glob_sync w (path_join w [dirname w, ''..'', ''initializers'', ''**'', source_pattern]);
          project = fold (\<lambda>startPath files. files @ glob_sync w (path_join w [startPath, ''**'', source_pattern]))
                      (initializer_paths w) core
      in case scan_plugins w (for_in_entries (plugins s)) project of
           Inl error \<Rightarrow> Inl error
         | Inr files \<Rightarrow> Inr (ensureNoTsHeaderFiles w (arrayUnique w files)))"

subsection \<open>\<^verbatim>\<open>initialize\<close>: the registry and the rankings\<close>

text \<open>
  What the loop over the files (lines 112-229) carries: the process, the three ranking
  objects, and whether a \<^verbatim>\<open>this.fatalError(...)\<close> called without \<^verbatim>\<open>await\<close> is in flight.
\<close>

record loader =
  proc :: process
  loadInitializerRankings :: "step rankings"
  startInitializerRankings :: "step rankings"
  stopInitializerRankings :: "step rankings"
  escalating :: bool

text \<open>
  \<^verbatim>\<open>this.stop()\<close> up to its first suspension: on a running process that is the pause
  after \<^verbatim>\<open>"stopping process..."\<close>; otherwise the call has finished.
\<close>

definition enter_stop :: "process \<Rightarrow> process" where
  "enter_stop s =
     (if truthy (running s) then begin_stop s
      else if shuttingDown s = Some True then s
      else log ''Cannot shut down actionhero, not running'' Error None s)"

text \<open>
  \<^verbatim>\<open>this.fatalError(error, file)\<close> inside the loop (lines 124 and 145) is not awaited: it
  runs up to the first suspension (the messages, then \<^verbatim>\<open>this.stop()\<close> up to its own), and
  the loop goes on.
\<close>

definition fatalError_unawaited :: "errors_arg \<Rightarrow> string \<Rightarrow> loader \<Rightarrow> loader" where
  "fatalError_unawaited errors type L =
     (case normalize_errors errors of
        None \<Rightarrow> L
      | Some es \<Rightarrow> L\<lparr>proc := enter_stop (log_fatal es type (proc L)), escalating := True\<rparr>)"

text \<open>\<^verbatim>\<open>this.initializers[initializer.name]\<close> is truthy (line 137).\<close>

definition registered :: "(string \<times> initializer) list \<Rightarrow> string \<Rightarrow> bool" where
  "registered registry nm \<longleftrightarrow> map_of registry nm \<noteq> None \<or> nm \<in> set object_prototype_keys"

definition warningMessage :: "initializer \<Rightarrow> string \<Rightarrow> string" where
  "warningMessage i file =
     ''an existing initializer with the same name `'' @ name i
     @ ''` will be overridden by the file '' @ file"

text \<open>Lines 205-227: the three closures of the instance go to their rankings.\<close>

definition schedule :: "initializer \<Rightarrow> string \<Rightarrow> loader \<Rightarrow> loader" where
  "schedule i file L =
     L\<lparr>loadInitializerRankings :=
         enqueue (loadInitializerRankings L) (loadPriority i) (InitializeFunction i file),
       startInitializerRankings :=
         enqueue (startInitializerRankings L) (startPriority i) (StartFunction i file),
       stopInitializerRankings :=
         enqueue (stopInitializerRankings L) (stopPriority i) (StopFunction i file)\<rparr>"

text \<open>
  Lines 131-146: the instance is registered when its name is free and \<^verbatim>\<open>validate()\<close>
  returns; a name that is taken is only logged. When the constructor throws, the variable
  \<^verbatim>\<open>initializer\<close> stays undefined and line 205 throws out of the loop.
\<close>

definition register :: "initializer \<Rightarrow> string \<Rightarrow> loader \<Rightarrow> loader" where
  "register i file L =
     (if registered (initializers (proc L)) (name i)
      then L\<lparr>proc := log (warningMessage i file) Warning None (proc L)\<rparr>
      else (case validate i of
              Some error \<Rightarrow> fatalError_unawaited (OneError error) file L
            | None \<Rightarrow>
                L\<lparr>proc := (proc L)\<lparr>initializers := AList.update (name i) i (initializers (proc L))\<rparr>\<rparr>))"

definition load_export :: "world \<Rightarrow> string \<Rightarrow> initializer_class \<Rightarrow> loader \<Rightarrow> (js_error \<times> loader) + loader" where
  "load_export w file InitializerClass L =
     (case InitializerClass of
        Throws error \<Rightarrow> Inl (undefined_read w, fatalError_unawaited (OneError error) file L)
      | Constructs i \<Rightarrow> Inr (schedule i file (register i file L)))"

fun load_exports :: "world \<Rightarrow> string \<Rightarrow> (string \<times> initializer_class) list \<Rightarrow> loader \<Rightarrow> (js_error \<times> loader) + loader" where
  "load_exports w file [] L = Inr L"
| "load_exports w file ((exportKey, InitializerClass) # rest) L =
     (case load_export w file InitializerClass L of
        Inl thrown \<Rightarrow> Inl thrown
      | Inr L' \<Rightarrow> load_exports w file rest L')"

text \<open>Lines 113-128: the module of a file, and the escalation when it exports nothing.\<close>

definition exportedClasses :: "js_module \<Rightarrow> (string \<times> initializer_class) list" where
  "exportedClasses m = (case m of FunctionExport c \<Rightarrow> [(''default'', c)] | ObjectExport cs \<Rightarrow> cs)"

definition load_file :: "world \<Rightarrow> string \<Rightarrow> loader \<Rightarrow> (js_error \<times> loader) + loader" where
  "load_file w f L =
     (let file = path_normalize w f
      in case require w file of
           Inl error \<Rightarrow> Inl (error, L)
         | Inr m \<Rightarrow>
             load_exports w file (exportedClasses m)
               (if length (exportedClasses m) = 0
                then fatalError_unawaited
                       (OneError (new_Error w (''no exported initializers found in '' @ file))) file L
                else L))"

fun load_files :: "world \<Rightarrow> string list \<Rightarrow> loader \<Rightarrow> (js_error \<times> loader) + loader" where
  "load_files w [] L = Inr L"
| "load_files w (f # fs) L =
     (case load_file w f L of
        Inl thrown \<Rightarrow> Inl thrown
      | Inr L' \<Rightarrow> load_files w fs L')"

subsection \<open>\<^verbatim>\<open>initialize\<close>, \<^verbatim>\<open>start\<close> and \<^verbatim>\<open>restart\<close>\<close>

text \<open>
  Lines 71-240: discovery, the loop over the files from empty rankings, and the three
  flattened lists stored in the process. \<open>Inl\<close>: an exception left \<^verbatim>\<open>initialize\<close> before
  the lists were stored. The flag says whether an escalation is in flight.
\<close>

definition build :: "world \<Rightarrow> process \<Rightarrow> (js_error \<times> process \<times> bool) + (process \<times> bool)" where
  "build w s =
     (case discover w s of
        Inl error \<Rightarrow> Inl (error, s, False)
      | Inr initializerFiles \<Rightarrow>
          (case load_files w initializerFiles
                  \<lparr>proc = s, loadInitializerRankings = [], startInitializerRankings = [],
                   stopInitializerRankings = [], escalating = False\<rparr> of
             Inl (error, L) \<Rightarrow> Inl (error, proc L, escalating L)
           | Inr L \<Rightarrow>
               Inr ((proc L)
                      \<lparr>loadInitializers := flattenOrderedInitializer (loadInitializerRankings L),
                       startInitializers := flattenOrderedInitializer (startInitializerRankings L),
                       stopInitializers := flattenOrderedInitializer (stopInitializerRankings L)\<rparr>,
                    escalating L)))"

definition initialize :: "world \<Rightarrow> process \<Rightarrow> outcome" where
  "initialize w s =
     (case build w s of
        Inl (error, s', in_flight) \<Rightarrow> if in_flight then Racing s' else Rejected error s'
      | Inr (s', in_flight) \<Rightarrow>
          if in_flight then Racing s'
          else (case asyncWaterfall w (loadInitializers s') s' of
                  Inl (error, s2) \<Rightarrow> fatalError w s2 (OneError error) ''initialize''
                | Inr s2 \<Rightarrow> Returned (s2\<lparr>initialized := Some True\<rparr>)))"

definition start :: "world \<Rightarrow> process \<Rightarrow> outcome" where
  "start w s =
     (case (if initialized s \<noteq> Some True then initialize w s else Returned s) of
        Returned s0 \<Rightarrow>
          (let s1 = s0\<lparr>pidFile := True, running := Some True, api_running := Some True\<rparr>;
               s2 = log ''*** Starting ActionHero ***'' Info None
                      (log (''environment: '' @ env w) Notice None s1);
               s3 = s2\<lparr>startInitializers := startInitializers s2 @ [StartedFunction]\<rparr>
           in case asyncWaterfall w (startInitializers s3) s3 of
                Inl (error, s4) \<Rightarrow> fatalError w s4 (OneError error) ''start''
              | Inr s4 \<Rightarrow> Returned s4)
      | out \<Rightarrow> out)"

definition restart :: "world \<Rightarrow> process \<Rightarrow> outcome" where
  "restart w s =
     (if running s = Some True
      then (case stop w s of Returned s' \<Rightarrow> start w s' | out \<Rightarrow> out)
      else start w s)"

subsection \<open>Notions the properties are stated with\<close>

text \<open>The error a step rejects with, if it rejects: that of the method it wraps.\<close>

definition method_rejection :: "js_method \<Rightarrow> js_error option" where
  "method_rejection m = (case m of Rejects e \<Rightarrow> Some e | _ \<Rightarrow> None)"

definition rejection :: "step \<Rightarrow> js_error option" where
  "rejection j =
     (case j of
        InitializeFunction i file \<Rightarrow> method_rejection (initialize_method i)
      | StartFunction i file \<Rightarrow> method_rejection (start_method i)
      | StopFunction i file \<Rightarrow> method_rejection (stop_method i)
      | StartedFunction \<Rightarrow> None
      | StoppedFunction \<Rightarrow> None)"

text \<open>The state an outcome leaves.\<close>

definition state_of :: "outcome \<Rightarrow> process" where
  "state_of out =
     (case out of Returned s \<Rightarrow> s | Rejected e s \<Rightarrow> s | Exited code s \<Rightarrow> s | Racing s \<Rightarrow> s)"

text \<open>
  The instances the loop over the files constructs, in the order of their construction
  (the order of discovery), each with the normalized name of its file.
\<close>

definition constructed :: "string \<Rightarrow> (string \<times> initializer_class) list \<Rightarrow> (initializer \<times> string) list" where
  "constructed file classes =
     concat (map (\<lambda>kc. case snd kc of Constructs i \<Rightarrow> [(i, file)] | Throws e \<Rightarrow> []) classes)"

definition file_instances :: "world \<Rightarrow> string \<Rightarrow> (initializer \<times> string) list" where
  "file_instances w f =
     (case require w (path_normalize w f) of
        Inl e \<Rightarrow> []
      | Inr m \<Rightarrow> constructed (path_normalize w f) (exportedClasses m))"

definition instances :: "world \<Rightarrow> string list \<Rightarrow> (initializer \<times> string) list" where
  "instances w files = concat (map (file_instances w) files)"






text \<open>The loader a run of the loop ends with, whether it finished or threw.\<close>

definition loader_of :: "(js_error \<times> loader) + loader \<Rightarrow> loader" where
  "loader_of r = (case r of Inl (e, L) \<Rightarrow> L | Inr L \<Rightarrow> L)"




text \<open>What no step changes: the flags, the three lists and the plugins; the log only grows.\<close>

definition frame :: "process \<Rightarrow> process \<Rightarrow> bool" where
  "frame s s' \<longleftrightarrow>
     running s' = running s \<and> initialized s' = initialized s \<and>
     loadInitializers s' = loadInitializers s \<and> startInitializers s' = startInitializers s \<and>
     stopInitializers s' = stopInitializers s \<and> plugins s' = plugins s \<and>
     prefix (logged s) (logged s')"

subsection \<open>Example worlds and processes\<close>

text \<open>
  A world whose core directory holds the given files, each with its module, and nothing
  else: no project path, a file system where only \<^verbatim>\<open>/missing\<close> does not exist.
\<close>

definition example_world :: "(string \<times> js_module) list \<Rightarrow> world" where
  "example_world mods =
     \<lparr>dirname = ''/app/classes'',
      path_join = (\<lambda>parts. case parts of [] \<Rightarrow> ''.'' | p # ps \<Rightarrow> p @ concat (map (\<lambda>q. ''/'' @ q) ps)),
      path_normalize = (\<lambda>p. p),
      glob_sync = (\<lambda>pattern. if take 4 pattern = ''/app'' then map fst mods else []),
      fs_existsSync = (\<lambda>p. p \<noteq> ''/missing''),
      initializer_paths = [],
      arrayUnique = (\<lambda>files. files),
      ensureNoTsHeaderFiles = (\<lambda>files. files),
      require = (\<lambda>file. case map_of mods file of
                          Some m \<Rightarrow> Inr m
                        | None \<Rightarrow> Inl (JsError ''Error'' ''Cannot find module'' ''Error: Cannot find module'')),
      capture_stack = (\<lambda>msg. ''Error: '' @ msg),
      undefined_read = JsError ''TypeError'' ''Cannot read property of undefined''
                         ''TypeError: Cannot read property of undefined'',
      now = 1000,
      env = ''test'',
      server_id = ''server-1''\<rparr>"

text \<open>An initializer whose three methods resolve, and one whose methods reject.\<close>

definition example_initializer :: "string \<Rightarrow> int \<Rightarrow> int \<Rightarrow> int \<Rightarrow> initializer" where
  "example_initializer nm l st sp =
     \<lparr>name = nm, loadPriority = l, startPriority = st, stopPriority = sp, validate = None,
      initialize_method = Resolves, start_method = Resolves, stop_method = Resolves\<rparr>"

definition boom :: js_error where
  "boom = JsError ''Error'' ''boom'' ''Error: boom''"

definition failing_initializer :: "string \<Rightarrow> int \<Rightarrow> int \<Rightarrow> int \<Rightarrow> initializer" where
  "failing_initializer nm l st sp =
     (example_initializer nm l st sp)
       \<lparr>initialize_method := Rejects boom, start_method := Rejects boom, stop_method := Rejects boom\<rparr>"

text \<open>
  A process in the middle of a shutdown; one that is initialized with the given start and
  stop lists; and the same, running.
\<close>

definition stopping_process :: process where
  "stopping_process = constructor\<lparr>running := Some False, shuttingDown := Some True\<rparr>"

definition initialized_process :: "step list \<Rightarrow> step list \<Rightarrow> process" where
  "initialized_process starts stops =
     constructor\<lparr>initialized := Some True, startInitializers := starts, stopInitializers := stops\<rparr>"

definition running_process :: "step list \<Rightarrow> step list \<Rightarrow> process" where
  "running_process starts stops = (initialized_process starts stops)\<lparr>running := Some True\<rparr>"

text \<open>Three start steps and three stop steps; the second of each rejects.\<close>

definition example_starts :: "step list" where
  "example_starts =
     [StartFunction (example_initializer ''a'' 1 1 1) ''a.js'',
      StartFunction (failing_initializer ''b'' 1 2 1) ''b.js'',
      StartFunction (example_initializer ''c'' 1 3 1) ''c.js'']"

definition example_stops :: "step list" where
  "example_stops =
     [StopFunction (example_initializer ''a'' 1 1 1) ''a.js'',
      StopFunction (failing_initializer ''b'' 1 2 1) ''b.js'',
      StopFunction (example_initializer ''c'' 1 3 1) ''c.js'']"


definition opt_out_modules :: "(string \<times> js_module) list" where
  "opt_out_modules =
     [(''/app/initializers/a.js'', ObjectExport [(''A'', Constructs (example_initializer ''A'' 1 1 1))]),
      (''/app/initializers/z.js'', ObjectExport [(''Z'', Constructs (example_initializer ''Z'' 0 (- 1) 0))])]"


definition original_x :: initializer where
  "original_x = example_initializer ''x'' 1 1 1"

definition duplicate_x :: initializer where
  "duplicate_x = example_initializer ''x'' 2 2 2"

definition invalid_duplicate_x :: initializer where
  "invalid_duplicate_x = duplicate_x\<lparr>validate := Some boom\<rparr>"

definition duplicate_modules :: "(string \<times> js_module) list" where
  "duplicate_modules =
     [(''/app/initializers/a.js'', ObjectExport [(''X'', Constructs original_x)]),
      (''/app/initializers/b.js'', ObjectExport [(''X'', Constructs duplicate_x)])]"


definition registered_loader :: loader where
  "registered_loader =
     \<lparr>proc = constructor\<lparr>initializers := [(''x'', original_x)]\<rparr>,
      loadInitializerRankings = [], startInitializerRankings = [],
      stopInitializerRankings = [], escalating = False\<rparr>"


section \<open>Properties\<close>

subsection \<open>Steps and waterfalls\<close>

declare stop.simps [simp del] fatalError.simps [simp del]

lemma stop_not_running: "\<not> truthy (running s) \<Longrightarrow> stop w s = Returned (enter_stop s)"
  by (simp add: stop.simps enter_stop_def)

lemmas step_defs = run_step_def initializeFunction_def startFunction_def stopFunction_def
        startedFunction_def stoppedFunction_def Let_def log_def rejection_def method_rejection_def

lemma run_step_Inl: "run_step w j s = Inl (e, s') \<Longrightarrow> rejection j = Some e"
  by (cases j) (auto simp: step_defs split: js_method.splits)

lemma run_step_Inr: "run_step w j s = Inr s' \<Longrightarrow> rejection j = None"
  by (cases j) (auto simp: step_defs split: js_method.splits)

lemma run_step_rejects: "rejection j = Some e \<Longrightarrow> \<exists>s'. run_step w j s = Inl (e, s')"
  by (cases j) (auto simp: step_defs split: js_method.splits)

lemma run_step_resolves: "rejection j = None \<Longrightarrow> \<exists>s'. run_step w j s = Inr s'"
  by (cases j) (auto simp: step_defs split: js_method.splits)

lemma frame_refl: "frame s s" by (simp add: frame_def)

lemma frame_trans: "frame s s1 \<Longrightarrow> frame s1 s2 \<Longrightarrow> frame s s2"
  by (auto simp: frame_def)

lemma run_step_frame:
  "run_step w j s = Inl (e, s') \<Longrightarrow> frame s s' \<and> executed s' = executed s \<and> shuttingDown s' = shuttingDown s"
  "run_step w j s = Inr s'' \<Longrightarrow> frame s s'' \<and> executed s'' = executed s \<and> (j \<noteq> StoppedFunction \<longrightarrow> shuttingDown s'' = shuttingDown s)"
  by (cases j; auto simp: step_defs frame_def split: js_method.splits if_splits)+

lemma asyncWaterfall_Inr:
  "asyncWaterfall w jobs s = Inr s' \<Longrightarrow>
     frame s s' \<and> executed s' = executed s @ jobs \<and> (\<forall>x\<in>set jobs. rejection x = None)"
proof (induction jobs arbitrary: s)
  case Nil
  then show ?case by (simp add: frame_refl)
next
  case (Cons j jobs)
  then obtain s1 where s1: "run_step w j (s\<lparr>executed := executed s @ [j]\<rparr>) = Inr s1"
     and rest: "asyncWaterfall w jobs s1 = Inr s'"
    by (auto split: sum.splits)
  from run_step_frame(2)[OF s1] have "frame s s1" "executed s1 = executed s @ [j]"
    by (auto simp: frame_def)
  with Cons.IH[OF rest] run_step_Inr[OF s1] show ?case
    by (auto intro: frame_trans)
qed

lemma asyncWaterfall_Inl:
  "asyncWaterfall w jobs s = Inl (e, s') \<Longrightarrow>
     \<exists>pre j post. jobs = pre @ j # post \<and> (\<forall>x\<in>set pre. rejection x = None) \<and> rejection j = Some e \<and>
       frame s s' \<and> executed s' = executed s @ pre @ [j] \<and>
       (StoppedFunction \<notin> set pre \<longrightarrow> shuttingDown s' = shuttingDown s)"
proof (induction jobs arbitrary: s)
  case Nil
  then show ?case by simp
next
  case (Cons j jobs)
  show ?case
  proof (cases "run_step w j (s\<lparr>executed := executed s @ [j]\<rparr>)")
    case (Inl failure)
    with Cons.prems have f: "run_step w j (s\<lparr>executed := executed s @ [j]\<rparr>) = Inl (e, s')"
      by simp
    from run_step_frame(1)[OF f] run_step_Inl[OF f]
    have "j # jobs = [] @ j # jobs \<and> (\<forall>x\<in>set []. rejection x = None) \<and> rejection j = Some e \<and>
       frame s s' \<and> executed s' = executed s @ [] @ [j] \<and>
       (StoppedFunction \<notin> set [] \<longrightarrow> shuttingDown s' = shuttingDown s)"
      by (auto simp: frame_def)
    then show ?thesis by blast
  next
    case (Inr s1)
    with Cons.prems have rest: "asyncWaterfall w jobs s1 = Inl (e, s')" by simp
    from Cons.IH[OF rest] obtain pre k post where
      d: "jobs = pre @ k # post" "\<forall>x\<in>set pre. rejection x = None" "rejection k = Some e"
         "frame s1 s'" "executed s' = executed s1 @ pre @ [k]"
         "StoppedFunction \<notin> set pre \<longrightarrow> shuttingDown s' = shuttingDown s1"
      by blast
    from run_step_frame(2)[OF Inr] have s1: "frame s s1" "executed s1 = executed s @ [j]"
       "j \<noteq> StoppedFunction \<longrightarrow> shuttingDown s1 = shuttingDown s"
      by (auto simp: frame_def)
    have "j # jobs = (j # pre) @ k # post \<and> (\<forall>x\<in>set (j # pre). rejection x = None) \<and> rejection k = Some e \<and>
       frame s s' \<and> executed s' = executed s @ (j # pre) @ [k] \<and>
       (StoppedFunction \<notin> set (j # pre) \<longrightarrow> shuttingDown s' = shuttingDown s)"
      using d s1 run_step_Inr[OF Inr] by (auto intro: frame_trans)
    then show ?thesis by blast
  qed
qed

lemma asyncWaterfall_resolves:
  "\<forall>x\<in>set jobs. rejection x = None \<Longrightarrow> \<exists>s'. asyncWaterfall w jobs s = Inr s'"
proof (induction jobs arbitrary: s)
  case Nil
  then show ?case by simp
next
  case (Cons j jobs)
  from Cons.prems have "rejection j = None" by simp
  from run_step_resolves[OF this, of w "s\<lparr>executed := executed s @ [j]\<rparr>"]
  obtain s1 where "run_step w j (s\<lparr>executed := executed s @ [j]\<rparr>) = Inr s1" ..
  with Cons show ?case by simp
qed

lemma asyncWaterfall_rejects:
  "\<forall>x\<in>set pre. rejection x = None \<Longrightarrow> rejection j = Some e \<Longrightarrow>
     \<exists>s'. asyncWaterfall w (pre @ j # post) s = Inl (e, s')"
proof (induction pre arbitrary: s)
  case Nil
  from run_step_rejects[OF Nil(2), of w "s\<lparr>executed := executed s @ [j]\<rparr>"]
  obtain s1 where "run_step w j (s\<lparr>executed := executed s @ [j]\<rparr>) = Inl (e, s1)" ..
  then show ?case by simp
next
  case (Cons a pre)
  from Cons.prems have "rejection a = None" by simp
  from run_step_resolves[OF this, of w "s\<lparr>executed := executed s @ [a]\<rparr>"]
  obtain s1 where "run_step w a (s\<lparr>executed := executed s @ [a]\<rparr>) = Inr s1" ..
  with Cons show ?case by simp
qed

lemma first_rejection_unique:
  assumes "pre @ j # post = pre' @ j' # post'"
    and "\<forall>x\<in>set pre. rejection x = None" "rejection j = Some e"
    and "\<forall>x\<in>set pre'. rejection x = None" "rejection j' = Some e'"
  shows "pre = pre' \<and> j = j' \<and> post = post'"
  using assms
proof (induction pre arbitrary: pre')
  case Nil
  then show ?case by (cases pre') auto
next
  case (Cons a pre)
  then show ?case by (cases pre') auto
qed

lemma fold_log_eq:
  "fold (\<lambda>e. log (err_stack e) Emerg None) es s =
     s\<lparr>logged := logged s @ map (\<lambda>e. Log (err_stack e) Emerg None) es\<rparr>"
  by (induction es arbitrary: s) (simp_all add: log_def)

lemma log_fatal_eq:
  "log_fatal es type s =
     s\<lparr>logged := logged s @ Log (''Error with initializer step: '' @ JSON_stringify type) Emerg None
            # map (\<lambda>e. Log (err_stack e) Emerg None) es\<rparr>"
  by (simp add: log_fatal_def fold_log_eq) (simp add: log_def)

lemma stop_running:
  "truthy (running s) \<Longrightarrow>
     stop w s =
       (case asyncWaterfall w (stopInitializers s @ [StoppedFunction])
               ((begin_stop s)\<lparr>stopInitializers := stopInitializers s @ [StoppedFunction]\<rparr>) of
          Inr s3 \<Rightarrow> Returned s3
        | Inl (error, s3) \<Rightarrow> Exited 1 (enter_stop (log_fatal [error] ''stop'' s3)))"
proof -
  assume run: "truthy (running s)"
  let ?s2 = "(begin_stop s)\<lparr>stopInitializers := stopInitializers s @ [StoppedFunction]\<rparr>"
  have s2: "stopInitializers (begin_stop s) = stopInitializers s" "running ?s2 = Some False"
    by (simp_all add: begin_stop_def log_def)
  show ?thesis
  proof (cases "asyncWaterfall w (stopInitializers s @ [StoppedFunction]) ?s2")
    case (Inr s3)
    with run s2 show ?thesis by (simp add: stop.simps Let_def)
  next
    case (Inl failure)
    obtain error s3 where f: "failure = (error, s3)" by (cases failure)
    with Inl asyncWaterfall_running[of w _ ?s2 error s3] s2 have "running s3 = Some False"
      by simp
    then have "\<not> truthy (running (log_fatal [error] ''stop'' s3))"
      by (simp add: log_fatal_running truthy_def)
    then have "fatalError w s3 (OneError error) ''stop'' = Exited 1 (enter_stop (log_fatal [error] ''stop'' s3))"
      by (simp add: fatalError.simps normalize_errors_def stop_not_running)
    with run s2 Inl f show ?thesis by (simp add: stop.simps Let_def)
  qed
qed

lemma stop_outcome: "(\<exists>s'. stop w s = Returned s') \<or> (\<exists>s'. stop w s = Exited 1 s')"
proof (cases "truthy (running s)")
  case True
  then show ?thesis
    by (simp add: stop_running split: sum.splits prod.splits)
next
  case False
  then show ?thesis by (simp add: stop_not_running)
qed

lemma fatalError_exits:
  "normalize_errors errors = Some es \<Longrightarrow>
     fatalError w s errors type = Exited 1 (state_of (stop w (log_fatal es type s)))"
  using stop_outcome[of w "log_fatal es type s"]
  by (auto simp: fatalError.simps state_of_def)

lemma fatalError_none: "fatalError w s NoError type = Returned s"
  by (simp add: fatalError.simps normalize_errors_def)

subsection \<open>Calls of \<^verbatim>\<open>stop\<close> that do nothing\<close>

lemmas example_defs = example_starts_def example_stops_def example_initializer_def
  failing_initializer_def boom_def running_process_def initialized_process_def constructor_def

text \<open>
  C6 (as the code has it): \<^verbatim>\<open>stop()\<close> on a process that is not running and not shutting
  down logs one message at error severity, runs no step and returns (the state is the
  old one but for that message, so nothing was executed and the process was not ended).
  On a process that is not running and is shutting down it returns the state unchanged: no
  step runs, and nothing at all is logged.
\<close>

theorem stop_when_not_running:
  assumes "\<not> truthy (running s)"
  shows "(shuttingDown s \<noteq> Some True \<longrightarrow>
           stop w s = Returned (s\<lparr>logged := logged s @ [Log ''Cannot shut down actionhero, not running'' Error None]\<rparr>))
       \<and> (shuttingDown s = Some True \<longrightarrow> stop w s = Returned s)"
  using assms by (simp add: stop_not_running enter_stop_def log_def)

theorem stop_when_not_running_witness:
  "stop (example_world []) constructor =
     Returned (constructor\<lparr>logged := [Log ''Cannot shut down actionhero, not running'' Error None]\<rparr>)
   \<and> executed (constructor\<lparr>logged := [Log ''Cannot shut down actionhero, not running'' Error None]\<rparr>) = []
   \<and> stop (example_world []) stopping_process = Returned stopping_process"
proof -
  have a: "\<not> truthy (running constructor)" "shuttingDown constructor \<noteq> Some True"
    by (simp_all add: constructor_def truthy_def)
  have b: "\<not> truthy (running stopping_process)" "shuttingDown stopping_process = Some True"
    by (simp_all add: stopping_process_def constructor_def truthy_def)
  have c: "logged constructor = []" "executed constructor = []" by (simp_all add: constructor_def)
  from stop_when_not_running[OF a(1), of "example_world []"] stop_when_not_running[OF b(1), of "example_world []"] a b c
  show ?thesis by simp
qed

text \<open>
  The second \<^verbatim>\<open>stop()\<close> of a shutdown in progress logs no note: the log is as empty
  after the call as before.
\<close>

theorem silent_double_stop_counterexample:
  "stop (example_world []) stopping_process = Returned stopping_process
   \<and> logged stopping_process = []"
  by (simp add: stop_not_running enter_stop_def stopping_process_def constructor_def truthy_def)

subsection \<open>The failure escalator\<close>

text \<open>
  C8 (as the code has it): \<^verbatim>\<open>fatalError(errors, type)\<close> does nothing when \<open>errors\<close> is
  falsy. Given one error or an array of errors, the empty array included, it logs the
  message that names the tag and then the stack of each error, calls \<^verbatim>\<open>stop()\<close> on the
  state so reached, and ends the process with status 1.
\<close>

theorem fatalError_escalates:
  "fatalError w s NoError type = Returned s
   \<and> fatalError w s (OneError e) type = Exited 1 (state_of (stop w (log_fatal [e] type s)))
   \<and> fatalError w s (ErrorList es) type = Exited 1 (state_of (stop w (log_fatal es type s)))
   \<and> log_fatal es type s =
       s\<lparr>logged := logged s
            @ Log (''Error with initializer step: '' @ JSON_stringify type) Emerg None
            # map (\<lambda>e. Log (err_stack e) Emerg None) es\<rparr>"
  by (simp add: fatalError_none fatalError_exits normalize_errors_def log_fatal_eq)

theorem fatalError_escalates_witness:
  "fatalError (example_world []) constructor (OneError boom) ''start'' =
     Exited 1 (constructor\<lparr>logged :=
       [Log (''Error with initializer step: '' @ [CHR 0x22] @ ''start'' @ [CHR 0x22]) Emerg None,
        Log ''Error: boom'' Emerg None,
        Log ''Cannot shut down actionhero, not running'' Error None]\<rparr>)"
proof -
  have j: "JSON_stringify ''start'' = [CHR 0x22] @ ''start'' @ [CHR 0x22]"
    by (simp add: JSON_stringify_def json_escape_def)
  from fatalError_escalates[of "example_world []" constructor "''start''" boom "[boom]"]
  have "fatalError (example_world []) constructor (OneError boom) ''start'' =
          Exited 1 (state_of (stop (example_world []) (log_fatal [boom] ''start'' constructor)))"
    and "log_fatal [boom] ''start'' constructor =
       constructor\<lparr>logged := logged constructor
            @ Log (''Error with initializer step: '' @ JSON_stringify ''start'') Emerg None
            # map (\<lambda>e. Log (err_stack e) Emerg None) [boom]\<rparr>"
    by blast+
  then show ?thesis
    by (simp add: j stop_not_running enter_stop_def state_of_def constructor_def truthy_def
          boom_def log_def)
qed

text \<open>
  With the empty array the escalator still logs the message with the tag, attempts the
  stop (which here reports that the process is not running) and exits with status 1.
\<close>

theorem fatalError_empty_list_counterexample:
  "fatalError (example_world []) constructor (ErrorList []) ''start'' =
     Exited 1 (constructor\<lparr>logged :=
       [Log (''Error with initializer step: '' @ [CHR 0x22] @ ''start'' @ [CHR 0x22]) Emerg None,
        Log ''Cannot shut down actionhero, not running'' Error None]\<rparr>)"
proof -
  have j: "JSON_stringify ''start'' = [CHR 0x22] @ ''start'' @ [CHR 0x22]"
    by (simp add: JSON_stringify_def json_escape_def)
  show ?thesis
    by (simp add: fatalError.simps normalize_errors_def log_fatal_eq j stop_not_running enter_stop_def
          constructor_def truthy_def log_def)
qed

subsection \<open>A stop step that fails\<close>

lemma enter_stop_idle:
  "running s = Some False \<Longrightarrow> shuttingDown s = Some True \<Longrightarrow> enter_stop s = s"
  by (simp add: enter_stop_def truthy_def)

text \<open>
  C10: let the process run with a stop list as \<^verbatim>\<open>initialize\<close> builds it (the closure that
  \<^verbatim>\<open>stop()\<close> pushes is not in it before the failing step), and let its step \<open>j\<close> reject
  after the steps before it have resolved. Then the waterfall of \<^verbatim>\<open>stop()\<close> fails in a
  state where \<open>running\<close> is false and \<open>shuttingDown\<close> is true; the \<^verbatim>\<open>stop()\<close> that
  \<^verbatim>\<open>fatalError\<close> then calls returns at once with the state unchanged; the outer call ends
  the process with status 1; and the steps executed are exactly those up to \<open>j\<close>, each
  once.
\<close>

theorem failed_stop_step_does_not_recurse:
  assumes run: "truthy (running s)"
    and list: "stopInitializers s = pre @ j # post"
    and pre: "\<forall>x\<in>set pre. rejection x = None \<and> x \<noteq> StoppedFunction"
    and j: "rejection j = Some e"
  shows "\<exists>s3. asyncWaterfall w (stopInitializers s @ [StoppedFunction])
               ((begin_stop s)\<lparr>stopInitializers := stopInitializers s @ [StoppedFunction]\<rparr>) = Inl (e, s3)
           \<and> running s3 = Some False \<and> shuttingDown s3 = Some True
           \<and> stop w (log_fatal [e] ''stop'' s3) = Returned (log_fatal [e] ''stop'' s3)
           \<and> stop w s = Exited 1 (log_fatal [e] ''stop'' s3)
           \<and> executed (log_fatal [e] ''stop'' s3) = executed s @ pre @ [j]"
proof -
  let ?jobs = "stopInitializers s @ [StoppedFunction]"
  let ?s2 = "(begin_stop s)\<lparr>stopInitializers := ?jobs\<rparr>"
  have jobs: "?jobs = pre @ j # (post @ [StoppedFunction])"
    using list by simp
  from pre have pre': "\<forall>x\<in>set pre. rejection x = None" and nostop: "StoppedFunction \<notin> set pre"
    by auto
  from asyncWaterfall_rejects[OF pre' j, of w "post @ [StoppedFunction]" ?s2] jobs
  obtain s3 where w3: "asyncWaterfall w ?jobs ?s2 = Inl (e, s3)" by auto
  from asyncWaterfall_Inl[OF w3] obtain pre' j' post' where
    d: "?jobs = pre' @ j' # post'" "\<forall>x\<in>set pre'. rejection x = None" "rejection j' = Some e"
       "frame ?s2 s3" "executed s3 = executed ?s2 @ pre' @ [j']"
       "StoppedFunction \<notin> set pre' \<longrightarrow> shuttingDown s3 = shuttingDown ?s2"
    by blast
  have "pre @ j # (post @ [StoppedFunction]) = pre' @ j' # post'"
    using jobs d(1) by simp
  from first_rejection_unique[OF this pre' j d(2) d(3)]
  have same: "pre' = pre" "j' = j" by auto
  have s2: "running ?s2 = Some False" "shuttingDown ?s2 = Some True" "executed ?s2 = executed s"
    by (simp_all add: begin_stop_def log_def)
  from d(4) s2 have r3: "running s3 = Some False" by (simp add: frame_def)
  from d(6) same nostop s2 have sd3: "shuttingDown s3 = Some True" by simp
  from d(5) same s2 have ex3: "executed s3 = executed s @ pre @ [j]" by simp
  let ?s4 = "log_fatal [e] ''stop'' s3"
  have s4: "running ?s4 = Some False" "shuttingDown ?s4 = Some True" "executed ?s4 = executed s3"
    using r3 sd3 by (simp_all add: log_fatal_eq)
  then have idle: "stop w ?s4 = Returned ?s4"
    by (simp add: stop_not_running truthy_def enter_stop_idle)
  have "stop w s = Exited 1 (enter_stop ?s4)"
    using run w3 by (simp add: stop_running)
  with s4 have "stop w s = Exited 1 ?s4" by (simp add: enter_stop_idle)
  with w3 r3 sd3 idle ex3 s4 show ?thesis by simp
qed

theorem failed_stop_step_does_not_recurse_witness:
  "\<exists>s3. asyncWaterfall (example_world []) (example_stops @ [StoppedFunction])
               ((begin_stop (running_process [] example_stops))\<lparr>stopInitializers := example_stops @ [StoppedFunction]\<rparr>) = Inl (boom, s3)
           \<and> running s3 = Some False \<and> shuttingDown s3 = Some True
           \<and> stop (example_world []) (log_fatal [boom] ''stop'' s3) = Returned (log_fatal [boom] ''stop'' s3)
           \<and> stop (example_world []) (running_process [] example_stops) = Exited 1 (log_fatal [boom] ''stop'' s3)
           \<and> executed (log_fatal [boom] ''stop'' s3) =
               [StopFunction (example_initializer ''a'' 1 1 1) ''a.js'',
                StopFunction (failing_initializer ''b'' 1 2 1) ''b.js'']"
proof -
  let ?s = "running_process [] example_stops"
  have 1: "truthy (running ?s)" by (simp add: example_defs truthy_def)
  have 2: "stopInitializers ?s = [StopFunction (example_initializer ''a'' 1 1 1) ''a.js''] @
      StopFunction (failing_initializer ''b'' 1 2 1) ''b.js'' # [StopFunction (example_initializer ''c'' 1 3 1) ''c.js'']"
    by (simp add: example_defs)
  have 3: "\<forall>x\<in>set [StopFunction (example_initializer ''a'' 1 1 1) ''a.js'']. rejection x = None \<and> x \<noteq> StoppedFunction"
    by (simp add: example_defs rejection_def method_rejection_def)
  have 4: "rejection (StopFunction (failing_initializer ''b'' 1 2 1) ''b.js'') = Some boom"
    by (simp add: example_defs rejection_def method_rejection_def)
  have 5: "stopInitializers ?s = example_stops" "executed ?s = []" by (simp_all add: example_defs)
  from failed_stop_step_does_not_recurse[OF 1 2 3 4, of "example_world []"]
  show ?thesis unfolding 5 by simp
qed

subsection \<open>A start step that fails\<close>

lemma enter_stop_frame:
  "\<not> truthy (running s) \<Longrightarrow>
     running (enter_stop s) = running s \<and> executed (enter_stop s) = executed s \<and>
     prefix (logged s) (logged (enter_stop s))"
  by (simp add: enter_stop_def log_def)

lemma fatalError_cleanup:
  assumes run: "running s = Some True"
  shows "\<exists>s' rest after.
           fatalError w s (OneError e) type = Exited 1 s' \<and> running s' = Some False \<and>
           executed s' = executed s @ rest \<and> prefix rest (stopInitializers s @ [StoppedFunction]) \<and>
           logged s' = logged s @ [Log (''Error with initializer step: '' @ JSON_stringify type) Emerg None,
                                   Log (err_stack e) Emerg None,
                                   Log ''stopping process...'' Notice None] @ after"
proof -
  let ?s1 = "log_fatal [e] type s"
  let ?jobs = "stopInitializers s @ [StoppedFunction]"
  let ?s2 = "(begin_stop ?s1)\<lparr>stopInitializers := stopInitializers ?s1 @ [StoppedFunction]\<rparr>"
  have s1: "truthy (running ?s1)" "stopInitializers ?s1 = stopInitializers s"
    using run by (simp_all add: log_fatal_eq truthy_def)
  have s2: "running ?s2 = Some False" "executed ?s2 = executed s"
     "logged ?s2 = logged s @ [Log (''Error with initializer step: '' @ JSON_stringify type) Emerg None,
                                   Log (err_stack e) Emerg None,
                                   Log ''stopping process...'' Notice None]"
    by (simp_all add: begin_stop_def log_def log_fatal_eq)
  have fe: "fatalError w s (OneError e) type = Exited 1 (state_of (stop w ?s1))"
    by (simp add: fatalError_exits normalize_errors_def)
  show ?thesis
  proof (cases "asyncWaterfall w (stopInitializers ?s1 @ [StoppedFunction]) ?s2")
    case (Inr s3)
    from asyncWaterfall_Inr[OF Inr] have f: "frame ?s2 s3" "executed s3 = executed ?s2 @ stopInitializers ?s1 @ [StoppedFunction]"
      by simp_all
    from f(1) obtain after where "logged s3 = logged ?s2 @ after"
      by (auto simp: frame_def prefix_def)
    moreover from f(1) s2 have "running s3 = Some False" by (simp add: frame_def)
    moreover have "stop w ?s1 = Returned s3" using s1 Inr by (simp add: stop_running)
    ultimately show ?thesis using fe f(2) s2 s1
      apply (intro exI[of _ s3] exI[of _ ?jobs] exI[of _ after])
      by (simp add: state_of_def)
  next
    case (Inl failure)
    obtain e' s3 where fl: "failure = (e', s3)" by (cases failure)
    with Inl have w3: "asyncWaterfall w (stopInitializers ?s1 @ [StoppedFunction]) ?s2 = Inl (e', s3)" by simp
    from asyncWaterfall_Inl[OF w3] obtain pre j post where
      d: "stopInitializers ?s1 @ [StoppedFunction] = pre @ j # post" "frame ?s2 s3" "executed s3 = executed ?s2 @ pre @ [j]"
      by blast
    let ?s4 = "enter_stop (log_fatal [e'] ''stop'' s3)"
    from d(2) s2 have r3: "running s3 = Some False" by (simp add: frame_def)
    then have nr: "\<not> truthy (running (log_fatal [e'] ''stop'' s3))"
      by (simp add: log_fatal_eq truthy_def)
    from d(2) obtain a1 where a1: "logged s3 = logged ?s2 @ a1"
      by (auto simp: frame_def prefix_def)
    from enter_stop_frame[OF nr] obtain a2 where
      a2: "logged ?s4 = logged (log_fatal [e'] ''stop'' s3) @ a2" "running ?s4 = Some False" "executed ?s4 = executed s3"
      using r3 by (auto simp: prefix_def log_fatal_eq)
    have st: "stop w ?s1 = Exited 1 ?s4" using s1 w3 by (simp add: stop_running)
    have pf: "prefix (pre @ [j]) ?jobs" using d(1) s1 by (simp add: prefix_def)
    have lg: "logged ?s4 = logged ?s2 @ (a1 @ Log (''Error with initializer step: '' @ JSON_stringify ''stop'') Emerg None
            # map (\<lambda>e. Log (err_stack e) Emerg None) [e'] @ a2)"
      using a1 a2 by (simp add: log_fatal_eq)
    show ?thesis using fe st a2 d(3) s2 pf lg
      apply (intro exI[of _ ?s4] exI[of _ "pre @ [j]"] exI[of _ "a1 @ Log (''Error with initializer step: '' @ JSON_stringify ''stop'') Emerg None
            # map (\<lambda>e. Log (err_stack e) Emerg None) [e'] @ a2"])
      by (simp add: state_of_def)
  qed
qed

text \<open>
  C4: let \<^verbatim>\<open>start()\<close> reach its waterfall in state \<open>s0\<close> (the process was initialized, or
  \<^verbatim>\<open>initialize()\<close> returned), and let step \<open>j\<close> of the start list reject with \<open>e\<close> after
  the steps before it have resolved. Then \<^verbatim>\<open>start()\<close> ends as \<^verbatim>\<open>fatalError\<close> with the tag
  \<^verbatim>\<open>start\<close> does, called where exactly the steps up to \<open>j\<close> have been executed; the
  process exits with status 1; what is executed after \<open>j\<close> is a prefix of the stop list
  (the cleanup by \<^verbatim>\<open>stop()\<close>), hence no later start step; and the log holds the message
  with the tag, the stack of \<open>e\<close> and the first message of \<^verbatim>\<open>stop()\<close>, in a row.
\<close>

theorem start_step_failure_escalates:
  assumes init: "(if initialized s \<noteq> Some True then initialize w s else Returned s) = Returned s0"
    and list: "startInitializers s0 @ [StartedFunction] = pre @ j # post"
    and pre: "\<forall>x\<in>set pre. rejection x = None"
    and j: "rejection j = Some e"
  shows "\<exists>s4 s' rest before after.
           start w s = fatalError w s4 (OneError e) ''start'' \<and>
           executed s4 = executed s0 @ pre @ [j] \<and>
           start w s = Exited 1 s' \<and> running s' = Some False \<and>
           executed s' = executed s0 @ pre @ [j] @ rest \<and>
           prefix rest (stopInitializers s0 @ [StoppedFunction]) \<and>
           logged s' = before @ [Log (''Error with initializer step: '' @ JSON_stringify ''start'') Emerg None,
                                 Log (err_stack e) Emerg None,
                                 Log ''stopping process...'' Notice None] @ after"
proof -
  let ?s1 = "s0\<lparr>pidFile := True, running := Some True, api_running := Some True\<rparr>"
  let ?s2 = "log ''*** Starting ActionHero ***'' Info None (log (''environment: '' @ env w) Notice None ?s1)"
  let ?s3 = "?s2\<lparr>startInitializers := startInitializers ?s2 @ [StartedFunction]\<rparr>"
  have s3: "startInitializers ?s3 = pre @ j # post" "running ?s3 = Some True"
      "executed ?s3 = executed s0" "stopInitializers ?s3 = stopInitializers s0"
    using list by (simp_all add: log_def)
  from asyncWaterfall_rejects[OF pre j, of w post ?s3]
  obtain s4 where w4: "asyncWaterfall w (pre @ j # post) ?s3 = Inl (e, s4)" by auto
  from asyncWaterfall_Inl[OF w4] obtain pre' j' post' where
    d: "pre @ j # post = pre' @ j' # post'" "\<forall>x\<in>set pre'. rejection x = None" "rejection j' = Some e"
       "frame ?s3 s4" "executed s4 = executed ?s3 @ pre' @ [j']"
    by blast
  from first_rejection_unique[OF d(1) pre j d(2) d(3)] have same: "pre' = pre" "j' = j" by auto
  from d(4) s3 have s4: "running s4 = Some True" "stopInitializers s4 = stopInitializers s0"
    by (simp_all add: frame_def)
  from d(5) same s3 have ex4: "executed s4 = executed s0 @ pre @ [j]" by simp
  have st: "start w s = fatalError w s4 (OneError e) ''start''"
    using init w4 s3(1) by (simp add: start_def Let_def)
  from fatalError_cleanup[OF s4(1), of w e "''start''"] obtain s' rest after where
    c: "fatalError w s4 (OneError e) ''start'' = Exited 1 s'" "running s' = Some False"
       "executed s' = executed s4 @ rest" "prefix rest (stopInitializers s4 @ [StoppedFunction])"
       "logged s' = logged s4 @ [Log (''Error with initializer step: '' @ JSON_stringify ''start'') Emerg None,
                                   Log (err_stack e) Emerg None,
                                   Log ''stopping process...'' Notice None] @ after"
    by blast
  from st c(1) have ex: "start w s = Exited 1 s'" by simp
  from c(3) ex4 have ex': "executed s' = executed s0 @ pre @ [j] @ rest" by simp
  from c(4) have pf: "prefix rest (stopInitializers s0 @ [StoppedFunction])"
    unfolding s4(2) .
  from st ex4 ex c(2) ex' pf c(5) show ?thesis by blast
qed

theorem start_step_failure_escalates_witness:
  "\<exists>s4 s' rest before after.
      start (example_world []) (initialized_process example_starts [])
        = fatalError (example_world []) s4 (OneError boom) ''start'' \<and>
      executed s4 = [StartFunction (example_initializer ''a'' 1 1 1) ''a.js'',
                     StartFunction (failing_initializer ''b'' 1 2 1) ''b.js''] \<and>
      start (example_world []) (initialized_process example_starts []) = Exited 1 s' \<and>
      running s' = Some False \<and>
      executed s' = [StartFunction (example_initializer ''a'' 1 1 1) ''a.js'',
                     StartFunction (failing_initializer ''b'' 1 2 1) ''b.js''] @ rest \<and>
      prefix rest [StoppedFunction] \<and>
      logged s' = before @ [Log (''Error with initializer step: '' @ JSON_stringify ''start'') Emerg None,
                            Log ''Error: boom'' Emerg None,
                            Log ''stopping process...'' Notice None] @ after"
proof -
  let ?s = "initialized_process example_starts []"
  have 1: "(if initialized ?s \<noteq> Some True then initialize (example_world []) ?s else Returned ?s) = Returned ?s"
    by (simp add: example_defs)
  have 2: "startInitializers ?s @ [StartedFunction] =
      [StartFunction (example_initializer ''a'' 1 1 1) ''a.js''] @ StartFunction (failing_initializer ''b'' 1 2 1) ''b.js''
       # [StartFunction (example_initializer ''c'' 1 3 1) ''c.js'', StartedFunction]"
    by (simp add: example_defs)
  have 3: "\<forall>x\<in>set [StartFunction (example_initializer ''a'' 1 1 1) ''a.js'']. rejection x = None"
    by (simp add: example_defs rejection_def method_rejection_def)
  have 4: "rejection (StartFunction (failing_initializer ''b'' 1 2 1) ''b.js'') = Some boom"
    by (simp add: example_defs rejection_def method_rejection_def)
  from start_step_failure_escalates[OF 1 2 3 4]
  show ?thesis by (simp add: example_defs)
qed

subsection \<open>Sorting the keys and flattening the rankings\<close>

lemma insert_by_sortNumber: "insert_by sortNumber x ys = insort x ys"
  by (induction ys) (auto simp: sortNumber_def)

lemma array_sort_sortNumber: "array_sort sortNumber xs = sort xs"
  by (induction xs) (simp_all add: array_sort_def insert_by_sortNumber)

lemma mset_for_in_keys: "mset (for_in_keys obj) = mset (map fst obj)"
  by (simp add: for_in_keys_def Let_def multiset_partition[symmetric])

lemma sorted_keys: "array_sort sortNumber (for_in_keys obj) = sort (map fst obj)"
proof -
  have "sort (for_in_keys obj) = sort (map fst obj)"
    by (rule properties_for_sort) (simp_all add: mset_for_in_keys)
  then show ?thesis by (simp add: array_sort_sortNumber)
qed

lemma sorted_same_priority:
  fixes prio :: "'a \<Rightarrow> int"
  shows "sorted (map prio [x\<leftarrow>ys. prio x = k])"
  by (induction ys) auto

lemma concat_buckets:
  fixes prio :: "'a \<Rightarrow> int"
  assumes "sorted ks" "distinct ks"
  shows "concat (map (\<lambda>p. [x\<leftarrow>ys. prio x = p]) ks) = sort_key prio [x\<leftarrow>ys. prio x \<in> set ks]"
  using assms
proof (induction ks)
  case Nil
  then show ?case by simp
next
  case (Cons k ks)
  then have IH: "concat (map (\<lambda>p. [x\<leftarrow>ys. prio x = p]) ks) = sort_key prio [x\<leftarrow>ys. prio x \<in> set ks]"
    and less: "\<forall>p\<in>set ks. k < p"
    by (auto simp: order_less_le)
  let ?A = "[x\<leftarrow>ys. prio x = k]"
  let ?B = "sort_key prio [x\<leftarrow>ys. prio x \<in> set ks]"
  let ?C = "[x\<leftarrow>ys. prio x \<in> set (k # ks)]"
  have "sort_key prio ?C = ?A @ ?B"
  proof (rule properties_for_sort_key)
    show "mset (?A @ ?B) = mset ?C"
      using less by (induction ys) auto
  next
    have "\<forall>a\<in>set ?A. \<forall>b\<in>set ?B. prio a \<le> prio b"
      using less by auto
    then show "sorted (map prio (?A @ ?B))"
      by (simp add: sorted_append sorted_same_priority)
  next
    fix x assume "x \<in> set (?A @ ?B)"
    have B: "[y\<leftarrow>?B. prio x = prio y] = [y\<leftarrow>[x\<leftarrow>ys. prio x \<in> set ks]. prio x = prio y]"
      using sort_key_stable[of prio "prio x" "[x\<leftarrow>ys. prio x \<in> set ks]"]
      by (simp add: eq_commute[of "prio x"])
    have "[y\<leftarrow>?A. prio x = prio y] @ [y\<leftarrow>[x\<leftarrow>ys. prio x \<in> set ks]. prio x = prio y] = [y\<leftarrow>?C. prio x = prio y]"
    proof (cases "prio x = k")
      case True
      have "[y\<leftarrow>[x\<leftarrow>ys. prio x \<in> set ks]. k = prio y] = []"
        using less by (auto simp: filter_empty_conv)
      moreover have "[y\<leftarrow>?A. k = prio y] = [y\<leftarrow>?C. k = prio y]"
        unfolding filter_filter by (rule filter_cong) auto
      ultimately show ?thesis using True by simp
    next
      case False
      have "[y\<leftarrow>?A. prio x = prio y] = []"
        using False by (auto simp: filter_empty_conv)
      moreover have "[y\<leftarrow>[x\<leftarrow>ys. prio x \<in> set ks]. prio x = prio y] = [y\<leftarrow>?C. prio x = prio y]"
        unfolding filter_filter using False by (intro filter_cong) auto
      ultimately show ?thesis by simp
    qed
    with B show "[y\<leftarrow>?A @ ?B. prio x = prio y] = [y\<leftarrow>?C. prio x = prio y]"
      by simp
  qed
  with IH show ?case by simp
qed

lemma bucket_update: "bucket (AList.update k v r) q = (if q = k then v else bucket r q)"
  by (simp add: bucket_def update_conv')

lemma bucket_enqueue:
  "bucket (enqueue r p f) q = (if q = p \<and> 0 < p then bucket r p @ [f] else bucket r q)"
proof (cases "map_of r p")
  case None
  then have "bucket r p = []" by (simp add: bucket_def)
  with None show ?thesis by (simp add: enqueue_def Let_def bucket_update)
next
  case (Some fs)
  then show ?thesis by (simp add: enqueue_def Let_def bucket_update)
qed

lemma keys_enqueue:
  "map fst (enqueue r p f) = (if p \<in> set (map fst r) then map fst r else map fst r @ [p])"
proof (cases "map_of r p")
  case None
  then have "p \<notin> fst ` set r" by (simp add: map_of_eq_None_iff)
  with None show ?thesis by (simp add: enqueue_def Let_def update_keys)
next
  case (Some fs)
  then have "p \<in> fst ` set r" by (metis map_of_eq_None_iff option.distinct(1))
  with Some show ?thesis by (simp add: enqueue_def Let_def update_keys)
qed

lemma bucket_fold_enqueue:
  fixes prio :: "'a \<Rightarrow> int"
  shows "bucket (fold (\<lambda>x r. enqueue r (prio x) (mk x)) xs r0) q =
           bucket r0 q @ map mk [x\<leftarrow>xs. prio x = q \<and> 0 < q]"
  by (induction xs arbitrary: r0) (simp_all add: bucket_enqueue)

lemma keys_fold_enqueue:
  fixes prio :: "'a \<Rightarrow> int"
  shows "set (map fst (fold (\<lambda>x r. enqueue r (prio x) (mk x)) xs r0)) =
           set (map fst r0) \<union> prio ` set xs"
proof (induction xs arbitrary: r0)
  case Nil
  then show ?case by simp
next
  case (Cons x xs)
  have "set (map fst (enqueue r0 (prio x) (mk x))) = insert (prio x) (set (map fst r0))"
    by (auto simp: keys_enqueue)
  with Cons.IH[of "enqueue r0 (prio x) (mk x)"] show ?case by simp
qed

lemma distinct_fold_enqueue:
  fixes prio :: "'a \<Rightarrow> int"
  shows "distinct (map fst r0) \<Longrightarrow>
           distinct (map fst (fold (\<lambda>x r. enqueue r (prio x) (mk x)) xs r0))"
proof (induction xs arbitrary: r0)
  case Nil
  then show ?case by simp
next
  case (Cons x xs)
  from Cons.prems have "distinct (map fst (enqueue r0 (prio x) (mk x)))"
    by (simp add: keys_enqueue)
  from Cons.IH[OF this] show ?case by simp
qed

lemma flatten_fold_enqueue:
  fixes prio :: "'a \<Rightarrow> int"
  shows "flattenOrderedInitializer (fold (\<lambda>x r. enqueue r (prio x) (mk x)) xs []) =
           map mk (sort_key prio [x\<leftarrow>xs. 0 < prio x])"
proof -
  let ?r = "fold (\<lambda>x r. enqueue r (prio x) (mk x)) xs []"
  let ?ks = "sort (map fst ?r)"
  let ?pos = "[x\<leftarrow>xs. 0 < prio x]"
  have b: "\<And>q. bucket ?r q = map mk [x\<leftarrow>xs. prio x = q \<and> 0 < q]"
    by (simp add: bucket_fold_enqueue) (simp add: bucket_def)
  have k: "set (map fst ?r) = prio ` set xs"
    by (simp only: keys_fold_enqueue) simp
  have d: "distinct (map fst ?r)"
    by (rule distinct_fold_enqueue) simp
  have "flattenOrderedInitializer ?r = concat (map (bucket ?r) ?ks)"
    by (simp add: flattenOrderedInitializer_def sorted_keys)
  also have "\<dots> = concat (map (\<lambda>p. map mk [x\<leftarrow>?pos. prio x = p]) ?ks)"
  proof -
    have "[x\<leftarrow>xs. prio x = p \<and> 0 < p] = [x\<leftarrow>?pos. prio x = p]" for p
      unfolding filter_filter by (rule filter_cong) auto
    then have "bucket ?r = (\<lambda>p. map mk [x\<leftarrow>?pos. prio x = p])"
      by (intro ext) (simp only: b)
    then show ?thesis by (simp only:)
  qed
  also have "\<dots> = map mk (concat (map (\<lambda>p. [x\<leftarrow>?pos. prio x = p]) ?ks))"
    by (simp add: map_concat comp_def)
  also have "concat (map (\<lambda>p. [x\<leftarrow>?pos. prio x = p]) ?ks) = sort_key prio [x\<leftarrow>?pos. prio x \<in> set ?ks]"
    using d by (intro concat_buckets) simp_all
  also have "[x\<leftarrow>?pos. prio x \<in> set ?ks] = ?pos"
  proof -
    have "\<forall>x\<in>set ?pos. prio x \<in> set ?ks" using k by auto
    then show ?thesis by (simp only: filter_id_conv)
  qed
  finally show ?thesis .
qed

subsection \<open>The rankings the loop builds\<close>

lemma fatalError_unawaited_ranks:
  "loadInitializerRankings (fatalError_unawaited errors type L) = loadInitializerRankings L"
  "startInitializerRankings (fatalError_unawaited errors type L) = startInitializerRankings L"
  "stopInitializerRankings (fatalError_unawaited errors type L) = stopInitializerRankings L"
  by (simp_all add: fatalError_unawaited_def split: option.splits)

lemma register_ranks:
  "loadInitializerRankings (register i file L) = loadInitializerRankings L"
  "startInitializerRankings (register i file L) = startInitializerRankings L"
  "stopInitializerRankings (register i file L) = stopInitializerRankings L"
  by (simp_all add: register_def fatalError_unawaited_ranks split: option.splits)

lemma load_export_Inr:
  "load_export w file c L = Inr L' \<Longrightarrow> \<exists>i. c = Constructs i \<and> L' = schedule i file (register i file L)"
  by (cases c) (simp_all add: load_export_def)

lemma load_exports_ranks:
  "load_exports w file cs L = Inr L' \<Longrightarrow>
     loadInitializerRankings L' =
       fold (\<lambda>x r. enqueue r (loadPriority (fst x)) (InitializeFunction (fst x) (snd x)))
         (constructed file cs) (loadInitializerRankings L) \<and>
     startInitializerRankings L' =
       fold (\<lambda>x r. enqueue r (startPriority (fst x)) (StartFunction (fst x) (snd x)))
         (constructed file cs) (startInitializerRankings L) \<and>
     stopInitializerRankings L' =
       fold (\<lambda>x r. enqueue r (stopPriority (fst x)) (StopFunction (fst x) (snd x)))
         (constructed file cs) (stopInitializerRankings L)"
proof (induction cs arbitrary: L)
  case Nil
  then show ?case by (simp add: constructed_def)
next
  case (Cons kc cs)
  obtain k c where kc: "kc = (k, c)" by (cases kc)
  from Cons.prems kc obtain L1 where
    1: "load_export w file c L = Inr L1" and 2: "load_exports w file cs L1 = Inr L'"
    by (auto split: sum.splits)
  from load_export_Inr[OF 1] obtain i where
    i: "c = Constructs i" "L1 = schedule i file (register i file L)" by blast
  have c: "constructed file (kc # cs) = (i, file) # constructed file cs"
    using kc i by (simp add: constructed_def)
  from Cons.IH[OF 2] show ?case
    unfolding c by (simp add: i schedule_def register_ranks)
qed

lemma load_file_ranks:
  assumes "load_file w f L = Inr L'"
  shows "loadInitializerRankings L' =
       fold (\<lambda>x r. enqueue r (loadPriority (fst x)) (InitializeFunction (fst x) (snd x)))
         (file_instances w f) (loadInitializerRankings L) \<and>
     startInitializerRankings L' =
       fold (\<lambda>x r. enqueue r (startPriority (fst x)) (StartFunction (fst x) (snd x)))
         (file_instances w f) (startInitializerRankings L) \<and>
     stopInitializerRankings L' =
       fold (\<lambda>x r. enqueue r (stopPriority (fst x)) (StopFunction (fst x) (snd x)))
         (file_instances w f) (stopInitializerRankings L)"
proof (cases "require w (path_normalize w f)")
  case (Inl e)
  with assms show ?thesis by (simp add: load_file_def Let_def)
next
  case (Inr m)
  let ?L1 = "if length (exportedClasses m) = 0
                then fatalError_unawaited
                       (OneError (new_Error w (''no exported initializers found in '' @ path_normalize w f)))
                       (path_normalize w f) L
                else L"
  from assms Inr have "load_exports w (path_normalize w f) (exportedClasses m) ?L1 = Inr L'"
    by (simp add: load_file_def Let_def)
  from load_exports_ranks[OF this] show ?thesis
    by (simp add: file_instances_def Inr fatalError_unawaited_ranks)
qed

lemma load_files_ranks:
  "load_files w files L = Inr L' \<Longrightarrow>
     loadInitializerRankings L' =
       fold (\<lambda>x r. enqueue r (loadPriority (fst x)) (InitializeFunction (fst x) (snd x)))
         (instances w files) (loadInitializerRankings L) \<and>
     startInitializerRankings L' =
       fold (\<lambda>x r. enqueue r (startPriority (fst x)) (StartFunction (fst x) (snd x)))
         (instances w files) (startInitializerRankings L) \<and>
     stopInitializerRankings L' =
       fold (\<lambda>x r. enqueue r (stopPriority (fst x)) (StopFunction (fst x) (snd x)))
         (instances w files) (stopInitializerRankings L)"
proof (induction files arbitrary: L)
  case Nil
  then show ?case by (simp add: instances_def)
next
  case (Cons f files)
  from Cons.prems obtain L1 where
    1: "load_file w f L = Inr L1" and 2: "load_files w files L1 = Inr L'"
    by (auto split: sum.splits)
  from Cons.IH[OF 2] load_file_ranks[OF 1] show ?case
    by (simp add: instances_def)
qed

lemma build_lists:
  assumes "build w s = Inr (s', in_flight)" and "discover w s = Inr files"
  shows "loadInitializers s' =
           map (\<lambda>x. InitializeFunction (fst x) (snd x))
             (sort_key (\<lambda>x. loadPriority (fst x)) [x\<leftarrow>instances w files. 0 < loadPriority (fst x)])"
    and "startInitializers s' =
           map (\<lambda>x. StartFunction (fst x) (snd x))
             (sort_key (\<lambda>x. startPriority (fst x)) [x\<leftarrow>instances w files. 0 < startPriority (fst x)])"
    and "stopInitializers s' =
           map (\<lambda>x. StopFunction (fst x) (snd x))
             (sort_key (\<lambda>x. stopPriority (fst x)) [x\<leftarrow>instances w files. 0 < stopPriority (fst x)])"
proof -
  let ?L0 = "\<lparr>proc = s, loadInitializerRankings = [], startInitializerRankings = [],
                   stopInitializerRankings = [], escalating = False\<rparr>"
  from assms obtain L where L: "load_files w files ?L0 = Inr L"
    and s': "s' = (proc L)
                      \<lparr>loadInitializers := flattenOrderedInitializer (loadInitializerRankings L),
                       startInitializers := flattenOrderedInitializer (startInitializerRankings L),
                       stopInitializers := flattenOrderedInitializer (stopInitializerRankings L)\<rparr>"
    by (auto simp: build_def split: sum.splits prod.splits)
  from load_files_ranks[OF L] show
    "loadInitializers s' =
           map (\<lambda>x. InitializeFunction (fst x) (snd x))
             (sort_key (\<lambda>x. loadPriority (fst x)) [x\<leftarrow>instances w files. 0 < loadPriority (fst x)])"
    "startInitializers s' =
           map (\<lambda>x. StartFunction (fst x) (snd x))
             (sort_key (\<lambda>x. startPriority (fst x)) [x\<leftarrow>instances w files. 0 < startPriority (fst x)])"
    "stopInitializers s' =
           map (\<lambda>x. StopFunction (fst x) (snd x))
             (sort_key (\<lambda>x. stopPriority (fst x)) [x\<leftarrow>instances w files. 0 < stopPriority (fst x)])"
    by (simp_all add: s' flatten_fold_enqueue)
qed


text \<open>
  The stop list that \<^verbatim>\<open>initialize\<close> stores holds closures of instances only: the closure
  that \<^verbatim>\<open>stop()\<close> pushes is not in it.
\<close>

lemma built_stop_list:
  assumes "build w s = Inr (s', in_flight)"
  shows "StoppedFunction \<notin> set (stopInitializers s')"
proof -
  from assms obtain files where "discover w s = Inr files"
    by (cases "discover w s") (simp_all add: build_def)
  from build_lists(3)[OF assms this] show ?thesis by auto
qed

subsection \<open>The order of the phase lists\<close>



lemmas loader_defs = load_file_def load_export_def register_def schedule_def registered_def
  object_prototype_keys_def exportedClasses_def enqueue_def bucket_def Let_def



lemma build_discovered: "build w s = Inr r \<Longrightarrow> \<exists>files. discover w s = Inr files"
  by (cases "discover w s") (simp_all add: build_def)

text \<open>
  C2: when the lists are stored, the load list holds no closure of an instance whose load
  priority is zero or negative, whatever the file; and so for the start list and the start
  priority, and for the stop list and the stop priority.
\<close>

theorem nonpositive_priority_excluded:
  assumes "build w s = Inr (s', in_flight)"
  shows "(loadPriority i \<le> 0 \<longrightarrow> InitializeFunction i file \<notin> set (loadInitializers s'))
       \<and> (startPriority i \<le> 0 \<longrightarrow> StartFunction i file \<notin> set (startInitializers s'))
       \<and> (stopPriority i \<le> 0 \<longrightarrow> StopFunction i file \<notin> set (stopInitializers s'))"
proof -
  from build_discovered[OF assms] obtain files where d: "discover w s = Inr files" ..
  show ?thesis
    unfolding build_lists[OF assms d] by auto
qed

lemma opt_out_build:
  "\<exists>s'. build (example_world opt_out_modules) constructor = Inr (s', False) \<and>
     loadInitializers s' = [InitializeFunction (example_initializer ''A'' 1 1 1) ''/app/initializers/a.js''] \<and>
     startInitializers s' = [StartFunction (example_initializer ''A'' 1 1 1) ''/app/initializers/a.js''] \<and>
     stopInitializers s' = [StopFunction (example_initializer ''A'' 1 1 1) ''/app/initializers/a.js'']"
  apply (simp add: build_def discover_def example_world_def opt_out_modules_def constructor_def
           for_in_entries_def source_pattern_def)
  apply (simp add: loader_defs example_initializer_def)
  apply (simp add: flattenOrderedInitializer_def sorted_keys bucket_def)
  done

theorem nonpositive_priority_excluded_witness:
  "\<exists>s'. build (example_world opt_out_modules) constructor = Inr (s', False) \<and>
     loadInitializers s' = [InitializeFunction (example_initializer ''A'' 1 1 1) ''/app/initializers/a.js''] \<and>
     InitializeFunction (example_initializer ''Z'' 0 (- 1) 0) ''/app/initializers/z.js'' \<notin> set (loadInitializers s') \<and>
     StartFunction (example_initializer ''Z'' 0 (- 1) 0) ''/app/initializers/z.js'' \<notin> set (startInitializers s') \<and>
     StopFunction (example_initializer ''Z'' 0 (- 1) 0) ''/app/initializers/z.js'' \<notin> set (stopInitializers s')"
proof -
  from opt_out_build obtain s' where
    b: "build (example_world opt_out_modules) constructor = Inr (s', False)"
    and l: "loadInitializers s' = [InitializeFunction (example_initializer ''A'' 1 1 1) ''/app/initializers/a.js'']"
    by blast
  have p: "loadPriority (example_initializer ''Z'' 0 (- 1) 0) \<le> 0"
     "startPriority (example_initializer ''Z'' 0 (- 1) 0) \<le> 0"
     "stopPriority (example_initializer ''Z'' 0 (- 1) 0) \<le> 0"
    by (simp_all add: example_initializer_def)
  from nonpositive_priority_excluded[OF b, of "example_initializer ''Z'' 0 (- 1) 0" "''/app/initializers/z.js''"] p b l
  show ?thesis by blast
qed

subsection \<open>A name that is taken\<close>

lemma enter_stop_initializers: "initializers (enter_stop s) = initializers s"
  by (simp add: enter_stop_def begin_stop_def log_def)

lemma fatalError_unawaited_initializers:
  "initializers (proc (fatalError_unawaited errors type L)) = initializers (proc L)"
  by (simp add: fatalError_unawaited_def enter_stop_initializers log_fatal_eq split: option.splits)

lemma register_keeps:
  assumes "map_of (initializers (proc L)) n = Some x"
  shows "map_of (initializers (proc (register i file L))) n = Some x"
proof (cases "registered (initializers (proc L)) (name i)")
  case True
  with assms show ?thesis by (simp add: register_def log_def)
next
  case False
  with assms have "name i \<noteq> n" by (auto simp: registered_def)
  with assms False show ?thesis
    by (simp add: register_def fatalError_unawaited_initializers update_conv' split: option.splits)
qed

lemma schedule_proc: "proc (schedule i file L) = proc L"
  by (simp add: schedule_def)

lemma load_export_keeps:
  assumes "map_of (initializers (proc L)) n = Some x"
  shows "map_of (initializers (proc (loader_of (load_export w file c L)))) n = Some x"
  using assms
  by (cases c)
     (simp_all add: load_export_def loader_of_def schedule_proc register_keeps
        fatalError_unawaited_initializers)

lemma load_exports_keeps:
  "map_of (initializers (proc L)) n = Some x \<Longrightarrow>
     map_of (initializers (proc (loader_of (load_exports w file cs L)))) n = Some x"
proof (induction cs arbitrary: L)
  case Nil
  then show ?case by (simp add: loader_of_def)
next
  case (Cons kc cs)
  obtain k c where kc: "kc = (k, c)" by (cases kc)
  show ?case
  proof (cases "load_export w file c L")
    case (Inl thrown)
    with load_export_keeps[OF Cons.prems, of w "file" c] kc show ?thesis by simp
  next
    case (Inr L1)
    with load_export_keeps[OF Cons.prems, of w "file" c]
    have "map_of (initializers (proc L1)) n = Some x" by (simp add: loader_of_def)
    from Cons.IH[OF this] Inr kc show ?thesis by simp
  qed
qed

lemma load_file_keeps:
  assumes "map_of (initializers (proc L)) n = Some x"
  shows "map_of (initializers (proc (loader_of (load_file w f L)))) n = Some x"
proof (cases "require w (path_normalize w f)")
  case (Inl e)
  with assms show ?thesis by (simp add: load_file_def loader_of_def)
next
  case (Inr m)
  let ?L1 = "if length (exportedClasses m) = 0
                then fatalError_unawaited
                       (OneError (new_Error w (''no exported initializers found in '' @ path_normalize w f)))
                       (path_normalize w f) L
                else L"
  from assms have "map_of (initializers (proc ?L1)) n = Some x"
    by (simp add: fatalError_unawaited_initializers)
  from load_exports_keeps[OF this] Inr show ?thesis
    by (simp add: load_file_def Let_def)
qed

lemma load_files_keeps:
  "map_of (initializers (proc L)) n = Some x \<Longrightarrow>
     map_of (initializers (proc (loader_of (load_files w files L)))) n = Some x"
proof (induction files arbitrary: L)
  case Nil
  then show ?case by (simp add: loader_of_def)
next
  case (Cons f files)
  show ?case
  proof (cases "load_file w f L")
    case (Inl thrown)
    with load_file_keeps[OF Cons.prems, of w f] show ?thesis by simp
  next
    case (Inr L1)
    with load_file_keeps[OF Cons.prems, of w f]
    have "map_of (initializers (proc L1)) n = Some x" by (simp add: loader_of_def)
    from Cons.IH[OF this] Inr show ?thesis by simp
  qed
qed

text \<open>
  C3: when the registry maps the name of a new instance to an instance \<open>original\<close>, loading
  the new instance succeeds, logs exactly the warning about the name, and leaves the
  registry as it was; and whatever files are loaded after it, the name still maps to
  \<open>original\<close>.
\<close>

theorem collision_keeps_original:
  assumes "map_of (initializers (proc L)) (name i) = Some original"
  shows "\<exists>L1. load_export w file (Constructs i) L = Inr L1 \<and>
           logged (proc L1) = logged (proc L) @ [Log (warningMessage i file) Warning None] \<and>
           initializers (proc L1) = initializers (proc L) \<and>
           (\<forall>files. map_of (initializers (proc (loader_of (load_files w files L1)))) (name i)
                      = Some original)"
proof -
  let ?L1 = "schedule i file (L\<lparr>proc := log (warningMessage i file) Warning None (proc L)\<rparr>)"
  from assms have r: "registered (initializers (proc L)) (name i)"
    by (simp add: registered_def)
  then have 1: "load_export w file (Constructs i) L = Inr ?L1"
    by (simp add: load_export_def register_def)
  have 2: "logged (proc ?L1) = logged (proc L) @ [Log (warningMessage i file) Warning None]"
    "initializers (proc ?L1) = initializers (proc L)"
    by (simp_all add: schedule_proc log_def)
  from assms 2(2) have "map_of (initializers (proc ?L1)) (name i) = Some original" by simp
  from load_files_keeps[OF this] have
    3: "\<forall>files. map_of (initializers (proc (loader_of (load_files w files ?L1)))) (name i) = Some original"
    by blast
  from 1 2 3 show ?thesis by blast
qed

lemmas x_defs = original_x_def duplicate_x_def invalid_duplicate_x_def example_initializer_def boom_def

theorem collision_keeps_original_witness:
  "\<exists>L1. load_export (example_world duplicate_modules) ''/app/initializers/b.js''
            (Constructs duplicate_x) registered_loader = Inr L1 \<and>
         logged (proc L1) =
           [Log ''an existing initializer with the same name `x` will be overridden by the file /app/initializers/b.js''
              Warning None] \<and>
         initializers (proc L1) = [(''x'', original_x)] \<and>
         map_of (initializers (proc (loader_of
            (load_files (example_world duplicate_modules) [''/app/initializers/b.js''] L1)))) ''x''
           = Some original_x \<and>
         original_x \<noteq> duplicate_x"
proof -
  have h: "map_of (initializers (proc registered_loader)) (name duplicate_x) = Some original_x"
    by (simp add: registered_loader_def x_defs)
  have n: "name duplicate_x = ''x''" "logged (proc registered_loader) = []"
     "initializers (proc registered_loader) = [(''x'', original_x)]"
     "warningMessage duplicate_x ''/app/initializers/b.js'' =
        ''an existing initializer with the same name `x` will be overridden by the file /app/initializers/b.js''"
     "original_x \<noteq> duplicate_x"
    by (simp_all add: registered_loader_def x_defs constructor_def warningMessage_def)
  from collision_keeps_original[OF h, of "example_world duplicate_modules" "''/app/initializers/b.js''"]
  obtain L1 where
    1: "load_export (example_world duplicate_modules) ''/app/initializers/b.js''
            (Constructs duplicate_x) registered_loader = Inr L1"
       "logged (proc L1) = logged (proc registered_loader)
          @ [Log (warningMessage duplicate_x ''/app/initializers/b.js'') Warning None]"
       "initializers (proc L1) = initializers (proc registered_loader)"
    and 2: "\<forall>files. map_of (initializers (proc (loader_of
            (load_files (example_world duplicate_modules) files L1)))) (name duplicate_x)
           = Some original_x"
    by blast
  from 2 have 3: "map_of (initializers (proc (loader_of
            (load_files (example_world duplicate_modules) [''/app/initializers/b.js''] L1)))) ''x''
           = Some original_x"
    unfolding n(1) by blast
  show ?thesis
    by (rule exI[of _ L1]) (simp only: 1 3 n append_Nil simp_thms)
qed






subsection \<open>Initializing again after a stop\<close>



























subsection \<open>A plugin whose path does not exist\<close>







end
